theory Spec2Isabelle
  imports Main "HOL-Library.Word" "HOL-Library.Char_ord" "HOL-Library.List_Lexorder"
begin

section \<open>String primitives of the C++ standard library\<close>

text \<open>
  The source is taken as built for release, with \<^verbatim>\<open>NDEBUG\<close>: an
  \<^verbatim>\<open>assert\<close> is no statement of the program. Logging has no part in the
  model.

  A \<^verbatim>\<open>std::string\<close> is a \<^typ>\<open>string\<close>; a position is a \<^typ>\<open>nat\<close> and
  \<^verbatim>\<open>std::string::npos\<close> is \<^term>\<open>None\<close>. \<^verbatim>\<open>substr\<close> throws when its position
  is past the end; every call of the source is in range (the position is a
  search result, or guarded by the loop condition), so it is \<^const>\<open>drop\<close> and
  \<^const>\<open>take\<close>.
\<close>

primrec find_idx :: "('a \<Rightarrow> bool) \<Rightarrow> 'a list \<Rightarrow> nat option" where
  "find_idx P [] = None"
| "find_idx P (x # xs) = (if P x then Some 0 else map_option Suc (find_idx P xs))"

definition find_first_of :: "string \<Rightarrow> string \<Rightarrow> nat \<Rightarrow> nat option" where
  "find_first_of s cs pos = map_option (\<lambda>i. i + pos) (find_idx (\<lambda>c. c \<in> set cs) (drop pos s))"

definition rfind :: "string \<Rightarrow> char \<Rightarrow> nat option" where
  "rfind s c = map_option (\<lambda>i. length s - 1 - i) (find_idx (\<lambda>x. x = c) (rev s))"

definition substr_from :: "string \<Rightarrow> nat \<Rightarrow> string" where
  "substr_from s pos = drop pos s"

definition substr :: "string \<Rightarrow> nat \<Rightarrow> nat \<Rightarrow> string" where
  "substr s pos n = take n (drop pos s)"

section \<open>URL helpers\<close>

definition get_filename_from_url :: "string \<Rightarrow> string" where
  "get_filename_from_url url =
     (case rfind url (CHR ''/'') of
        Some slash \<Rightarrow> substr_from url (slash + 1)
      | None \<Rightarrow> url)"

definition get_file_extension_from_url :: "string \<Rightarrow> string" where
  "get_file_extension_from_url url =
     (case rfind url (CHR ''.'') of
        Some dot \<Rightarrow> substr_from url dot
      | None \<Rightarrow> url)"

section \<open>Searching\<close>

lemma find_idx_None: "find_idx P xs = None \<longleftrightarrow> (\<forall>x \<in> set xs. \<not> P x)"
  by (induction xs) auto

lemma find_idx_Some:
  "find_idx P xs = Some i \<Longrightarrow> i < length xs \<and> P (xs ! i) \<and> (\<forall>x \<in> set (take i xs). \<not> P x)"
proof (induction xs arbitrary: i)
  case Nil
  then show ?case by simp
next
  case (Cons x xs)
  show ?case
  proof (cases "P x")
    case True
    with Cons.prems show ?thesis by simp
  next
    case False
    with Cons.prems obtain j where j: "find_idx P xs = Some j" "i = Suc j"
      by auto
    from Cons.IH [OF j(1)] False j(2) show ?thesis by simp
  qed
qed

lemma rfind_None: "rfind s c = None \<longleftrightarrow> c \<notin> set s"
  by (auto simp: rfind_def find_idx_None)

lemma rfind_Some:
  assumes "rfind s c = Some p"
  shows "p < length s \<and> s ! p = c \<and> c \<notin> set (drop (Suc p) s)"
proof -
  from assms obtain i where i: "find_idx (\<lambda>x. x = c) (rev s) = Some i" "p = length s - 1 - i"
    by (auto simp: rfind_def)
  from find_idx_Some [OF i(1)]
  have b: "i < length s" and h: "rev s ! i = c" and t: "\<forall>x \<in> set (take i (rev s)). x \<noteq> c"
    by auto
  from b i(2) have p: "p < length s" "i = length s - Suc p" by auto
  from h b have "s ! p = c" by (simp add: rev_nth i(2))
  moreover have "take i (rev s) = rev (drop (Suc p) s)"
    using p by (simp add: take_rev)
  with t have "c \<notin> set (drop (Suc p) s)" by auto
  ultimately show ?thesis using p by simp
qed

lemma find_first_of_Some:
  "find_first_of s cs pos = Some q \<Longrightarrow> pos \<le> q \<and> q < length s"
  by (auto simp: find_first_of_def dest!: find_idx_Some)

section \<open>Notifications\<close>

text \<open>
  The three \<^verbatim>\<open>wxCommandEvent\<close> kinds the updater queues to the application,
  each with the string set by \<^verbatim>\<open>SetString\<close>. The queue of the application
  is a list, oldest event first.
\<close>

datatype event =
    EVT_SLIC3R_VERSION_ONLINE string
  | EVT_SLIC3R_EXPERIMENTAL_VERSION_ONLINE string
  | EVT_SLIC3R_APP_DOWNLOAD_PROGRESS string

section \<open>Version parser\<close>

text \<open>
  \<^verbatim>\<open>Semver\<close> is declared outside the files at hand, so \<^verbatim>\<open>Semver::parse\<close> and
  \<^verbatim>\<open>operator<\<close> are the parameters \<open>parse\<close> and \<open>lt\<close> of the parser: a
  partial function from strings to versions of any type \<^typ>\<open>'v\<close>, and a relation on
  them.
\<close>

definition nl_chars :: string where
  "nl_chars = [CHR 0x0A, CHR 0x0D]"

text \<open>
  The \<^verbatim>\<open>while\<close> loop over the lines after the first. \<open>nexn_nl_pos\<close> is the
  position of the line break before the line to read, \<^term>\<open>None\<close> for
  \<^verbatim>\<open>npos\<close>. The result is \<^term>\<open>None\<close> when the loop leaves the function by
  \<^verbatim>\<open>return\<close>, and the vector \<open>prerelease_versions\<close> otherwise.
\<close>

function prerelease_loop ::
  "(string \<Rightarrow> 'v option) \<Rightarrow> string \<Rightarrow> nat option \<Rightarrow> string list \<Rightarrow> string list option" where
  "prerelease_loop parse body nexn_nl_pos prerelease_versions =
     (case nexn_nl_pos of
        None \<Rightarrow> Some prerelease_versions
      | Some last_nl_pos \<Rightarrow>
          if \<not> (length body > last_nl_pos + 1) then Some prerelease_versions
          else
            let nexn = find_first_of body nl_chars (last_nl_pos + 1);
                line = (case nexn of
                          None \<Rightarrow> substr_from body (last_nl_pos + 1)
                        | Some n \<Rightarrow> substr body (last_nl_pos + 1) (n - last_nl_pos - 1))
            in if substr line 0 6 = ''alpha='' then
                 (case parse (substr_from line 6) of
                    None \<Rightarrow> None
                  | Some _ \<Rightarrow>
                      prerelease_loop parse body nexn (prerelease_versions @ [substr_from line 6]))
               else if substr line 0 5 = ''beta='' then
                 (case parse (substr_from line 5) of
                    None \<Rightarrow> None
                  | Some _ \<Rightarrow>
                      prerelease_loop parse body nexn (prerelease_versions @ [substr_from line 5]))
               else prerelease_loop parse body nexn prerelease_versions)"
  by pat_completeness auto
termination
  by (relation "measure (\<lambda>(parse, body, pos, acc). case pos of None \<Rightarrow> 0 | Some n \<Rightarrow> length body - n)")
     (auto split: option.splits dest!: find_first_of_Some)

text \<open>
  The \<^verbatim>\<open>for\<close> loop that finds the recent version. \<open>recent\<close> pairs
  \<open>recent_version\<close> with the string \<open>version\<close>, which the loop assigns together
  with it and the function reads only when \<open>recent_version\<close> is set.
\<close>

fun find_recent ::
  "(string \<Rightarrow> 'v option) \<Rightarrow> ('v \<Rightarrow> 'v \<Rightarrow> bool) \<Rightarrow> 'v \<Rightarrow> string list \<Rightarrow>
     ('v \<times> string) option \<Rightarrow> ('v \<times> string) option" where
  "find_recent parse lt release_version [] recent = recent"
| "find_recent parse lt release_version (ver_string # rest) recent =
     find_recent parse lt release_version rest
       (case parse ver_string of
          Some ver \<Rightarrow>
            if lt release_version ver \<and>
               ((recent \<noteq> None \<and> lt (fst (the recent)) ver) \<or> recent = None)
            then Some (ver, ver_string) else recent
        | None \<Rightarrow> recent)"

text \<open>The events \<^verbatim>\<open>parse_version_string\<close> queues, in order.\<close>

definition parse_version_string ::
  "(string \<Rightarrow> 'v option) \<Rightarrow> ('v \<Rightarrow> 'v \<Rightarrow> bool) \<Rightarrow> string \<Rightarrow> event list" where
  "parse_version_string parse lt body =
     (let first_nl_pos = find_first_of body nl_chars 0;
          version = (case first_nl_pos of Some p \<Rightarrow> substr body 0 p | None \<Rightarrow> body)
      in case parse version of
           None \<Rightarrow> []
         | Some release_version \<Rightarrow>
             EVT_SLIC3R_VERSION_ONLINE version #
             (case prerelease_loop parse body first_nl_pos [] of
                None \<Rightarrow> []
              | Some prerelease_versions \<Rightarrow>
                  (case find_recent parse lt release_version prerelease_versions None of
                     None \<Rightarrow> []
                   | Some (recent_version, version') \<Rightarrow>
                       [EVT_SLIC3R_EXPERIMENTAL_VERSION_ONLINE version'])))"

section \<open>Downloader\<close>

type_synonym size_t = "64 word"

type_synonym path = string

record DownloadAppData =
  url :: string
  start_after :: bool

text \<open>
  Modelled from the spec: \<^verbatim>\<open>Http::Progress\<close> (declared in Http.hpp), of which the
  callback reads the bytes downloaded and the bytes in total.
\<close>

record Progress =
  dltotal :: size_t
  dlnow :: size_t

text \<open>
  The members of \<^verbatim>\<open>AppUpdater::priv\<close> that a download reads. The thread handle
  and the cancellation flag are in the coordinator below.
\<close>

record priv =
  m_default_dest_folder :: path
  m_user_dest_path :: path

text \<open>
  What the process is given from outside: the process id
  (\<^verbatim>\<open>get_current_pid\<close>), \<^verbatim>\<open>operator/\<close> of \<^verbatim>\<open>boost::filesystem::path\<close>, and
  what goes wrong with the files of this download: nothing; the stream cannot
  open the temporary file; the stream fails after writing some bytes of the
  body; or \<^verbatim>\<open>rename\<close> fails.
\<close>

datatype fs_fault = NoFault | OpenFails | WriteFails nat | RenameThrows

record env =
  current_pid :: nat
  path_append :: "path \<Rightarrow> string \<Rightarrow> path"
  fault :: fs_fault

text \<open>
  The state a task works on: the event queue of the application, the file
  system, the GET requests performed (URL and size limit), and the locals that
  the callbacks capture by reference: \<open>last_gui_progress\<close> of
  \<^verbatim>\<open>download_file\<close>, \<open>error_message\<close> of the caller and \<open>res\<close> of
  \<^verbatim>\<open>http_get_file\<close>.
\<close>

record state =
  events :: "event list"
  files :: "path \<rightharpoonup> string"
  requests :: "(string \<times> nat) list"
  last_gui_progress :: size_t
  error_message :: string
  res :: bool

text \<open>\<^verbatim>\<open>std::to_string\<close> of an unsigned number, and \<^verbatim>\<open>%1%\<close> of one.\<close>

fun to_string :: "nat \<Rightarrow> string" where
  "to_string n =
     (if n < 10 then [''0123456789'' ! n]
      else to_string (n div 10) @ [''0123456789'' ! (n mod 10)])"

declare to_string.simps [simp del]

subsection \<open>The transport\<close>

text \<open>
  Modelled from the spec: \<^verbatim>\<open>Http::get(url).size_limit(n)\<close> with its three
  callbacks and \<^verbatim>\<open>perform_sync\<close> (Http.cpp). A transfer is what the network
  does with one request: the progress callbacks it makes, each with the value
  \<open>m_cancel\<close> has when the callback reads it, and how it ends. The transport
  calls the progress callback for each sample and aborts the transfer, with no
  completion callback, as soon as the callback sets its \<open>cancel\<close> argument; a
  transfer that is not aborted ends in the error callback, also when the body
  exceeds the size limit, or else in the success callback.
\<close>

datatype http_result =
    HttpError string string nat
  | HttpComplete string nat

record transfer =
  ticks :: "(Progress \<times> bool) list"
  result :: http_result

fun run_ticks ::
  "(Progress \<Rightarrow> bool \<Rightarrow> state \<Rightarrow> bool \<times> state) \<Rightarrow> (Progress \<times> bool) list \<Rightarrow> state \<Rightarrow> bool \<times> state" where
  "run_ticks on_progress [] st = (False, st)"
| "run_ticks on_progress ((progress, m_cancel_now) # rest) st =
     (case on_progress progress m_cancel_now st of
        (cancel, st') \<Rightarrow> if cancel then (True, st') else run_ticks on_progress rest st')"

definition perform_sync ::
  "string \<Rightarrow> nat \<Rightarrow>
   (Progress \<Rightarrow> bool \<Rightarrow> state \<Rightarrow> bool \<times> state) \<Rightarrow>
   (string \<Rightarrow> string \<Rightarrow> nat \<Rightarrow> state \<Rightarrow> state) \<Rightarrow>
   (string \<Rightarrow> nat \<Rightarrow> state \<Rightarrow> state) \<Rightarrow>
   transfer \<Rightarrow> state \<Rightarrow> state" where
  "perform_sync url' size_limit on_progress on_error on_complete t st =
     (case run_ticks on_progress (ticks t) (st\<lparr>requests := requests st @ [(url', size_limit)]\<rparr>) of
        (aborted, st') \<Rightarrow>
          if aborted then st'
          else (case result t of
                  HttpError body error http_status \<Rightarrow> on_error body error http_status st'
                | HttpComplete body http_status \<Rightarrow>
                    if length body > size_limit
                    then on_error body ''HTTP body data size exceeded limit'' http_status st'
                    else on_complete body http_status st'))"

subsection \<open>\<^verbatim>\<open>http_get_file\<close>\<close>

definition http_get_file ::
  "string \<Rightarrow> nat \<Rightarrow> (Progress \<Rightarrow> state \<Rightarrow> state) \<Rightarrow> (string \<Rightarrow> state \<Rightarrow> bool \<times> state) \<Rightarrow>
   transfer \<Rightarrow> state \<Rightarrow> state" where
  "http_get_file url' size_limit progress_fn complete_fn t st =
     perform_sync url' size_limit
       (\<lambda>progress m_cancel_now s.
          let cancel = m_cancel_now;
              s' = progress_fn progress s
          in (cancel, if cancel then s'\<lparr>error_message := ''Download was canceled.''\<rparr> else s'))
       (\<lambda>body error http_status s.
          s\<lparr>error_message :=
              ''Error getting: `'' @ url' @ ''`: HTTP '' @ to_string http_status @ '', '' @ error\<rparr>)
       (\<lambda>body http_status s.
          case complete_fn body s of (r, s') \<Rightarrow> s'\<lparr>res := r\<rparr>)
       t (st\<lparr>res := False\<rparr>)"

subsection \<open>\<^verbatim>\<open>download_file\<close>\<close>

text \<open>The two callbacks that \<^verbatim>\<open>download_file\<close> passes.\<close>

definition gui_progress_of :: "Progress \<Rightarrow> size_t" where
  "gui_progress_of progress =
     (if dltotal progress > 0 then 100 * dlnow progress div dltotal progress else 0)"

definition download_progress_fn :: "Progress \<Rightarrow> state \<Rightarrow> state" where
  "download_progress_fn progress st =
     (let gui_progress = gui_progress_of progress
      in if last_gui_progress st < gui_progress \<and>
            (last_gui_progress st \<noteq> 0 \<or> gui_progress \<noteq> 100)
         then st\<lparr>last_gui_progress := gui_progress,
                 events := events st @
                   [EVT_SLIC3R_APP_DOWNLOAD_PROGRESS (to_string (unat gui_progress))]\<rparr>
         else st)"

text \<open>
  The file operations of the completion callback. The stream of the source has
  no exception mask, and the source tests no stream state: construction,
  \<^verbatim>\<open>write\<close> and \<^verbatim>\<open>close\<close> never throw. A stream that cannot open the file
  creates and changes no file, and its \<^verbatim>\<open>write\<close> does nothing; a stream whose
  \<^verbatim>\<open>write\<close> fails leaves the bytes written before. \<^verbatim>\<open>fstream_write\<close> is the
  file system after the three statements. \<^verbatim>\<open>rename\<close> throws when there is no
  file to rename or when the file system refuses; it returns whether it threw,
  and the file system it leaves.
\<close>

definition fstream_write ::
  "fs_fault \<Rightarrow> path \<Rightarrow> string \<Rightarrow> (path \<rightharpoonup> string) \<Rightarrow> (path \<rightharpoonup> string)" where
  "fstream_write flt p body fs =
     (case flt of
        OpenFails \<Rightarrow> fs
      | WriteFails k \<Rightarrow> fs(p \<mapsto> take k body)
      | _ \<Rightarrow> fs(p \<mapsto> body))"

definition fs_rename ::
  "fs_fault \<Rightarrow> path \<Rightarrow> path \<Rightarrow> (path \<rightharpoonup> string) \<Rightarrow> bool \<times> (path \<rightharpoonup> string)" where
  "fs_rename flt old_p new_p fs =
     (case fs old_p of
        None \<Rightarrow> (True, fs)
      | Some content \<Rightarrow>
          if flt = RenameThrows then (True, fs)
          else (False, (fs(old_p := None))(new_p \<mapsto> content)))"

definition tmp_path_of :: "env \<Rightarrow> path \<Rightarrow> path" where
  "tmp_path_of e dest_path = dest_path @ ''.'' @ to_string (current_pid e) @ ''.download''"

text \<open>
  The completion callback: the \<^verbatim>\<open>try\<close> block writes and renames, and the
  \<^verbatim>\<open>catch\<close> clause returns false when \<^verbatim>\<open>rename\<close>, the one statement that
  can throw, has thrown.
\<close>

definition download_complete_fn :: "env \<Rightarrow> path \<Rightarrow> string \<Rightarrow> state \<Rightarrow> bool \<times> state" where
  "download_complete_fn e dest_path body st =
     (let tmp_path = tmp_path_of e dest_path;
          fs = fstream_write (fault e) tmp_path body (files st)
      in case fs_rename (fault e) tmp_path dest_path fs of
           (True, fs') \<Rightarrow> (False, st\<lparr>files := fs'\<rparr>)
         | (False, fs') \<Rightarrow> (True, st\<lparr>files := fs'\<rparr>))"

definition resolve_dest_path :: "env \<Rightarrow> priv \<Rightarrow> DownloadAppData \<Rightarrow> path" where
  "resolve_dest_path e p data =
     (if m_user_dest_path p \<noteq> [] then m_user_dest_path p
      else path_append e (m_default_dest_folder p) (get_filename_from_url (url data)))"

text \<open>
  \<^verbatim>\<open>download_file\<close>, as built with \<^verbatim>\<open>NDEBUG\<close>: the \<^verbatim>\<open>assert\<close> before the
  test for an empty destination is compiled out. The result is the returned
  path, empty for \<^verbatim>\<open>boost::filesystem::path()\<close>.
\<close>

definition download_file :: "env \<Rightarrow> priv \<Rightarrow> DownloadAppData \<Rightarrow> transfer \<Rightarrow> state \<Rightarrow> path \<times> state" where
  "download_file e p data t st =
     (let dest_path = resolve_dest_path e p data;
          st0 = st\<lparr>last_gui_progress := 0\<rparr>
      in if dest_path = [] then ([], st0)
         else
           let st1 = http_get_file (url data) (70 * 1024 * 1024)
                       download_progress_fn
                       (download_complete_fn e dest_path)
                       t (st0\<lparr>error_message := []\<rparr>)
           in if \<not> res st1 then ([], st1) else (dest_path, st1))"

subsection \<open>\<^verbatim>\<open>version_check\<close>\<close>

definition is_space :: "char \<Rightarrow> bool" where
  "is_space c = (c \<in> set [CHR 0x20, CHR 0x09, CHR 0x0A, CHR 0x0B, CHR 0x0C, CHR 0x0D])"

definition trim :: "string \<Rightarrow> string" where
  "trim s = rev (dropWhile is_space (rev (dropWhile is_space s)))"

definition version_check ::
  "(string \<Rightarrow> 'v option) \<Rightarrow> ('v \<Rightarrow> 'v \<Rightarrow> bool) \<Rightarrow> string \<Rightarrow> transfer \<Rightarrow> state \<Rightarrow> state" where
  "version_check parse lt version_check_url t st =
     http_get_file version_check_url 256
       (\<lambda>progress s. s)
       (\<lambda>body s. (True, s\<lparr>events := events s @ parse_version_string parse lt (trim body)\<rparr>))
       t (st\<lparr>error_message := []\<rparr>)"

section \<open>Update coordinator\<close>

text \<open>
  \<^verbatim>\<open>sync_download\<close>, \<^verbatim>\<open>sync_version\<close> and \<^verbatim>\<open>cancel\<close> run on the thread that
  owns the \<^verbatim>\<open>AppUpdater\<close>; the only other thread is the one in \<open>m_thread\<close>.
  A thread is named by a number. \<open>m_thread\<close> is \<^term>\<open>None\<close> when the handle
  is not joinable; \<open>running\<close> lists the threads that were started and have not
  run to their end; \<open>actions\<close> records, in order, what the owner did to
  \<open>m_cancel\<close> and to threads. \<^verbatim>\<open>join\<close> returns when the thread has ended, so
  the thread is not running afterwards.
\<close>

datatype task = DownloadTask DownloadAppData | VersionTask string

datatype action = StoreCancel bool | Join nat | Spawn nat task

record updater =
  m_thread :: "nat option"
  m_cancel :: bool
  running :: "nat list"
  spawned :: nat
  actions :: "action list"

definition new_updater :: updater where
  "new_updater = \<lparr>m_thread = None, m_cancel = False, running = [], spawned = 0, actions = []\<rparr>"

definition store_cancel :: "bool \<Rightarrow> updater \<Rightarrow> updater" where
  "store_cancel b u = u\<lparr>m_cancel := b, actions := actions u @ [StoreCancel b]\<rparr>"

definition join_thread :: "nat \<Rightarrow> updater \<Rightarrow> updater" where
  "join_thread t u =
     u\<lparr>running := removeAll t (running u),
       m_thread := None,
       actions := actions u @ [Join t]\<rparr>"

definition start_thread :: "task \<Rightarrow> updater \<Rightarrow> updater" where
  "start_thread job u =
     u\<lparr>m_thread := Some (spawned u),
       running := spawned u # running u,
       spawned := Suc (spawned u),
       actions := actions u @ [Spawn (spawned u) job]\<rparr>"

text \<open>
  The block that opens both \<^verbatim>\<open>sync_download\<close> and \<^verbatim>\<open>sync_version\<close>, and is
  the body of the destructor.
\<close>

definition join_if_joinable :: "updater \<Rightarrow> updater" where
  "join_if_joinable u =
     (case m_thread u of
        None \<Rightarrow> u
      | Some t \<Rightarrow> join_thread t (store_cancel True u))"

definition sync_download :: "DownloadAppData \<Rightarrow> updater \<Rightarrow> updater" where
  "sync_download input_data u =
     start_thread (DownloadTask input_data) (store_cancel False (join_if_joinable u))"

definition sync_version :: "string \<Rightarrow> updater \<Rightarrow> updater" where
  "sync_version version_check_url u =
     start_thread (VersionTask version_check_url) (store_cancel False (join_if_joinable u))"

definition cancel :: "updater \<Rightarrow> updater" where
  "cancel u = store_cancel True u"

text \<open>
  What can happen to an updater: a call by the owner, or the end of a running
  thread, at any moment between two calls.
\<close>

datatype occurrence =
    CallSyncDownload DownloadAppData
  | CallSyncVersion string
  | CallCancel
  | ThreadEnds nat

fun occur :: "updater \<Rightarrow> occurrence \<Rightarrow> updater" where
  "occur u (CallSyncDownload d) = sync_download d u"
| "occur u (CallSyncVersion v) = sync_version v u"
| "occur u CallCancel = cancel u"
| "occur u (ThreadEnds t) = u\<lparr>running := removeAll t (running u)\<rparr>"

definition history :: "occurrence list \<Rightarrow> updater" where
  "history os = foldl occur new_updater os"

section \<open>Notions of the specification and of the proofs\<close>

subsection \<open>Lines of a version body\<close>

text \<open>
  A body is split into lines at every line feed and every carriage return. The
  release version is its first line; a prerelease line is a later line that
  starts with \<open>alpha=\<close> or \<open>beta=\<close>, and its version string is what follows.
\<close>

primrec split_where :: "(char \<Rightarrow> bool) \<Rightarrow> string \<Rightarrow> string list" where
  "split_where P [] = [[]]"
| "split_where P (c # cs) =
     (if P c then [] # split_where P cs
      else (case split_where P cs of [] \<Rightarrow> [[c]] | l # ls \<Rightarrow> (c # l) # ls))"

definition split_lines :: "string \<Rightarrow> string list" where
  "split_lines body = split_where (\<lambda>c. c \<in> set nl_chars) body"

definition first_line :: "string \<Rightarrow> string" where
  "first_line body = takeWhile (\<lambda>c. c \<notin> set nl_chars) body"

definition prerelease_of_line :: "string \<Rightarrow> string option" where
  "prerelease_of_line line =
     (if take 6 line = ''alpha='' then Some (drop 6 line)
      else if take 5 line = ''beta='' then Some (drop 5 line)
      else None)"

definition prerelease_strings :: "string \<Rightarrow> string list" where
  "prerelease_strings body = List.map_filter prerelease_of_line (tl (split_lines body))"

definition collected ::
  "(string \<Rightarrow> 'v option) \<Rightarrow> string list \<Rightarrow> string list \<Rightarrow> string list option" where
  "collected parse acc ls =
     (if \<forall>v \<in> set (List.map_filter prerelease_of_line ls). parse v \<noteq> None
      then Some (acc @ List.map_filter prerelease_of_line ls) else None)"

subsection \<open>Semantic versions\<close>

text \<open>
  Modelled from the spec: \<^verbatim>\<open>Semver::parse\<close> and \<^verbatim>\<open>operator<\<close> of \<^verbatim>\<open>Semver\<close>
  (libslic3r/Semver.hpp). A semantic version is major, minor and patch number
  with an optional prerelease tag, written \<open>major.minor.patch\<close> or
  \<open>major.minor.patch-tag\<close>; text of another form does not parse. The order
  compares the numbers first; of two versions with the same numbers one with a
  tag precedes one without, and two tags compare as strings. The general
  theorems below hold for every \<open>parse\<close> and every order; this model serves
  the examples.
\<close>

datatype semver = Semver (major: nat) (minor: nat) (patch: nat) (prerelease: "string option")

definition is_digit :: "char \<Rightarrow> bool" where
  "is_digit c = (c \<in> set ''0123456789'')"

definition parse_number :: "string \<Rightarrow> nat option" where
  "parse_number s =
     (if s \<noteq> [] \<and> list_all is_digit s
      then Some (foldl (\<lambda>n c. 10 * n + (of_char c - 48)) 0 s) else None)"

definition semver_parse :: "string \<Rightarrow> semver option" where
  "semver_parse s =
     (let core = takeWhile (\<lambda>c. c \<noteq> CHR ''-'') s;
          rest = dropWhile (\<lambda>c. c \<noteq> CHR ''-'') s
      in case map parse_number (split_where (\<lambda>c. c = CHR ''.'') core) of
           [Some x, Some y, Some z] \<Rightarrow>
             (if rest = [] then Some (Semver x y z None)
              else if tl rest = [] then None
              else Some (Semver x y z (Some (tl rest))))
         | _ \<Rightarrow> None)"

definition prerelease_less :: "string option \<Rightarrow> string option \<Rightarrow> bool" where
  "prerelease_less a b =
     (case (a, b) of
        (Some x, Some y) \<Rightarrow> x < y
      | (Some x, None) \<Rightarrow> True
      | (None, _) \<Rightarrow> False)"

definition semver_less :: "semver \<Rightarrow> semver \<Rightarrow> bool" where
  "semver_less a b =
     (major a < major b \<or> (major a = major b \<and>
       (minor a < minor b \<or> (minor a = minor b \<and>
         (patch a < patch b \<or> (patch a = patch b \<and>
           prerelease_less (prerelease a) (prerelease b)))))))"

subsection \<open>Publishing of progress\<close>

text \<open>
  The percentages published for a sequence of raw percentages, starting from
  the last published one: a percentage is published exactly when it is greater
  than the last published one, and not when it is 100 and the last is 0; a
  published percentage becomes the last.
\<close>

fun published :: "size_t \<Rightarrow> size_t list \<Rightarrow> size_t list" where
  "published last_pub [] = []"
| "published last_pub (current # rest) =
     (if last_pub < current \<and> \<not> (last_pub = 0 \<and> current = 100)
      then current # published current rest
      else published last_pub rest)"

subsection \<open>Phases of a transfer\<close>

text \<open>
  Names for the proofs about a download: the progress callback that
  \<^verbatim>\<open>http_get_file\<close> builds around \<open>progress_fn\<close>; whether some progress callback
  of a transfer reads \<open>m_cancel\<close> as set; the state when the progress callbacks
  are over; what writing and renaming make of a file system; and the
  transfers that return the destination, which are those that are not
  cancelled, complete within the size limit, and whose \<^verbatim>\<open>rename\<close> does not
  throw.
\<close>

definition progress_cb :: "(Progress \<Rightarrow> state \<Rightarrow> state) \<Rightarrow> Progress \<Rightarrow> bool \<Rightarrow> state \<Rightarrow> bool \<times> state" where
  "progress_cb f progress c s =
     (c, if c then (f progress s)\<lparr>error_message := ''Download was canceled.''\<rparr> else f progress s)"

definition cancel_seen :: "transfer \<Rightarrow> bool" where
  "cancel_seen t = (\<exists>tick \<in> set (ticks t). snd tick)"

definition after_ticks :: "string \<Rightarrow> nat \<Rightarrow> (Progress \<Rightarrow> state \<Rightarrow> state) \<Rightarrow> transfer \<Rightarrow> state \<Rightarrow> state" where
  "after_ticks u n f t st =
     snd (run_ticks (progress_cb f) (ticks t)
       (st\<lparr>res := False, requests := requests st @ [(u, n)]\<rparr>))"

definition stage :: "env \<Rightarrow> path \<Rightarrow> string \<Rightarrow> (path \<rightharpoonup> string) \<Rightarrow> bool \<times> (path \<rightharpoonup> string)" where
  "stage e dest_path body fs =
     fs_rename (fault e) (tmp_path_of e dest_path) dest_path
       (fstream_write (fault e) (tmp_path_of e dest_path) body fs)"

definition staged :: "env \<Rightarrow> path \<Rightarrow> transfer \<Rightarrow> (path \<rightharpoonup> string) \<Rightarrow> bool" where
  "staged e dest_path t fs =
     (\<not> cancel_seen t \<and>
      (case result t of
         HttpComplete body http_status \<Rightarrow>
           length body \<le> 70 * 1024 * 1024 \<and> \<not> fst (stage e dest_path body fs)
       | HttpError body error http_status \<Rightarrow> False))"

subsection \<open>An example download\<close>

text \<open>
  A process with id 4242 whose path append puts a \<open>/\<close> between two non-empty
  parts, an empty state, and a transfer of the four bytes \<open>abcd\<close> with two
  progress callbacks, the first of which may read \<open>m_cancel\<close> as set.
\<close>

definition example_env :: "fs_fault \<Rightarrow> env" where
  "example_env flt =
     \<lparr>current_pid = 4242,
      path_append = (\<lambda>d f. if f = [] then d else if d = [] then f else d @ ''/'' @ f),
      fault = flt\<rparr>"

definition example_state :: state where
  "example_state =
     \<lparr>events = [], files = Map.empty, requests = [], last_gui_progress = 0,
      error_message = [], res = False\<rparr>"

definition example_transfer :: "bool \<Rightarrow> transfer" where
  "example_transfer cancelled =
     \<lparr>ticks = [(\<lparr>dltotal = 4, dlnow = 2\<rparr>, cancelled), (\<lparr>dltotal = 4, dlnow = 4\<rparr>, False)],
      result = HttpComplete ''abcd'' 200\<rparr>"

subsection \<open>Serial use of threads\<close>

text \<open>
  Reading a sequence of actions from the left while keeping the thread that was
  spawned and not yet joined: a thread may be spawned only when there is none,
  and only that thread may be joined. The result is \<^term>\<open>None\<close> when an action
  breaks this rule.
\<close>

fun track :: "nat option option \<Rightarrow> action \<Rightarrow> nat option option" where
  "track None a = None"
| "track (Some unjoined) (StoreCancel b) = Some unjoined"
| "track (Some unjoined) (Spawn t job) = (if unjoined = None then Some (Some t) else None)"
| "track (Some unjoined) (Join t) = (if unjoined = Some t then Some None else None)"

definition serial :: "action list \<Rightarrow> bool" where
  "serial as = (foldl track (Some None) as \<noteq> None)"

text \<open>
  The value that a sequence of actions leaves in \<open>m_cancel\<close>, which is false
  in a new updater: the value of the last store.
\<close>

definition flag_after :: "action list \<Rightarrow> bool" where
  "flag_after as = foldl (\<lambda>flag a. case a of StoreCancel b \<Rightarrow> b | _ \<Rightarrow> flag) False as"

section \<open>File name and extension of a URL\<close>

text \<open>
  C10. A URL without \<open>/\<close> is its own file name, and otherwise the file name is
  what follows the last \<open>/\<close>; a URL without \<open>.\<close> is its own extension, and
  otherwise the extension starts at the last \<open>.\<close>, dot included.
\<close>

theorem url_filename_and_extension:
  "(CHR ''/'' \<notin> set u \<longrightarrow> get_filename_from_url u = u) \<and>
   (CHR ''/'' \<in> set u \<longrightarrow>
      (\<exists>pre. u = pre @ CHR ''/'' # get_filename_from_url u) \<and>
      CHR ''/'' \<notin> set (get_filename_from_url u)) \<and>
   (CHR ''.'' \<notin> set u \<longrightarrow> get_file_extension_from_url u = u) \<and>
   (CHR ''.'' \<in> set u \<longrightarrow>
      (\<exists>pre rest. u = pre @ get_file_extension_from_url u \<and>
         get_file_extension_from_url u = CHR ''.'' # rest \<and> CHR ''.'' \<notin> set rest))"
proof -
  have split_at: "\<exists>p. rfind u c = Some p \<and> u = take p u @ c # drop (Suc p) u \<and>
      c \<notin> set (drop (Suc p) u)" if "c \<in> set u" for c
  proof -
    from that obtain p where p: "rfind u c = Some p"
      using rfind_None [of u c] by (cases "rfind u c") auto
    from rfind_Some [OF p] have "p < length u" "u ! p = c" "c \<notin> set (drop (Suc p) u)"
      by auto
    then show ?thesis using p by (auto simp: id_take_nth_drop)
  qed
  have f1: "CHR ''/'' \<notin> set u \<longrightarrow> get_filename_from_url u = u"
    by (auto simp: get_filename_from_url_def rfind_None [symmetric])
  have f2: "CHR ''/'' \<in> set u \<longrightarrow>
      (\<exists>pre. u = pre @ CHR ''/'' # get_filename_from_url u) \<and>
      CHR ''/'' \<notin> set (get_filename_from_url u)"
  proof
    assume "CHR ''/'' \<in> set u"
    from split_at [OF this] obtain p where p: "rfind u (CHR ''/'') = Some p"
      "u = take p u @ CHR ''/'' # drop (Suc p) u" "CHR ''/'' \<notin> set (drop (Suc p) u)"
      by blast
    have "get_filename_from_url u = drop (Suc p) u"
      using p(1) by (simp add: get_filename_from_url_def substr_from_def)
    with p(2,3) show "(\<exists>pre. u = pre @ CHR ''/'' # get_filename_from_url u) \<and>
      CHR ''/'' \<notin> set (get_filename_from_url u)"
      by metis
  qed
  have e1: "CHR ''.'' \<notin> set u \<longrightarrow> get_file_extension_from_url u = u"
    by (auto simp: get_file_extension_from_url_def rfind_None [symmetric])
  have e2: "CHR ''.'' \<in> set u \<longrightarrow>
      (\<exists>pre rest. u = pre @ get_file_extension_from_url u \<and>
         get_file_extension_from_url u = CHR ''.'' # rest \<and> CHR ''.'' \<notin> set rest)"
  proof
    assume "CHR ''.'' \<in> set u"
    from split_at [OF this] obtain p where p: "rfind u (CHR ''.'') = Some p"
      "u = take p u @ CHR ''.'' # drop (Suc p) u" "CHR ''.'' \<notin> set (drop (Suc p) u)"
      by blast
    from rfind_Some [OF p(1)] have "p < length u" "u ! p = CHR ''.''" by auto
    then have "drop p u = CHR ''.'' # drop (Suc p) u"
      by (metis Cons_nth_drop_Suc)
    moreover have "get_file_extension_from_url u = drop p u"
      using p(1) by (simp add: get_file_extension_from_url_def substr_from_def)
    ultimately show "\<exists>pre rest. u = pre @ get_file_extension_from_url u \<and>
         get_file_extension_from_url u = CHR ''.'' # rest \<and> CHR ''.'' \<notin> set rest"
      using p(2,3) by metis
  qed
  from f1 f2 e1 e2 show ?thesis by blast
qed

theorem url_filename_and_extension_witness:
  "get_filename_from_url ''installer.exe'' = ''installer.exe'' \<and>
   get_filename_from_url ''https://host/files/app-2.6.0.exe'' = ''app-2.6.0.exe'' \<and>
   get_file_extension_from_url ''README'' = ''README'' \<and>
   get_file_extension_from_url ''https://host/files/app-2.6.0.exe'' = ''.exe'' \<and>
   get_filename_from_url ''https://host/dir/'' = []"
proof -
  have a: "get_filename_from_url ''installer.exe'' = ''installer.exe''"
    using url_filename_and_extension [of "''installer.exe''"] by simp
  have b: "get_file_extension_from_url ''README'' = ''README''"
    using url_filename_and_extension [of "''README''"] by simp
  have c: "get_filename_from_url ''https://host/files/app-2.6.0.exe'' = ''app-2.6.0.exe''"
    by (simp add: get_filename_from_url_def rfind_def substr_from_def)
  have d: "get_file_extension_from_url ''https://host/files/app-2.6.0.exe'' = ''.exe''"
    by (simp add: get_file_extension_from_url_def rfind_def substr_from_def)
  have e: "get_filename_from_url ''https://host/dir/'' = []"
    by (simp add: get_filename_from_url_def rfind_def substr_from_def)
  from a b c d e show ?thesis by blast
qed

section \<open>The version parser reads a body line by line\<close>

text \<open>
  The loop of \<^verbatim>\<open>parse_version_string\<close> walks over positions of the body. It
  reads exactly the lines after the first, so that the function is determined
  by \<^const>\<open>first_line\<close> and \<^const>\<open>prerelease_strings\<close>.
\<close>

lemma split_where_not_Nil: "split_where P s \<noteq> []"
  by (induction s) (auto split: list.splits)

lemma split_where_no_sep: "find_idx P s = None \<Longrightarrow> split_where P s = [s]"
  by (induction s) (auto split: if_splits)

lemma split_where_at_sep:
  "find_idx P s = Some i \<Longrightarrow> split_where P s = take i s # split_where P (drop (Suc i) s)"
proof (induction s arbitrary: i)
  case Nil
  then show ?case by simp
next
  case (Cons c cs)
  show ?case
  proof (cases "P c")
    case True
    with Cons.prems show ?thesis by simp
  next
    case False
    with Cons.prems obtain j where j: "find_idx P cs = Some j" "i = Suc j"
      by auto
    from Cons.IH [OF j(1)] False j(2) show ?thesis by simp
  qed
qed

lemma first_line_hd: "first_line body = hd (split_lines body)"
  unfolding first_line_def split_lines_def
  by (induction body) (auto split: list.splits simp: split_where_not_Nil)

lemma version_is_first_line:
  "(case find_first_of body nl_chars 0 of Some p \<Rightarrow> substr body 0 p | None \<Rightarrow> body) = first_line body"
proof (cases "find_idx (\<lambda>c. c \<in> set nl_chars) body")
  case None
  then show ?thesis
    by (simp add: find_first_of_def first_line_hd split_lines_def split_where_no_sep)
next
  case (Some i)
  then show ?thesis
    by (simp add: find_first_of_def first_line_hd split_lines_def split_where_at_sep substr_def)
qed

lemma map_filter_Cons:
  "List.map_filter f (x # xs) = (case f x of None \<Rightarrow> List.map_filter f xs | Some y \<Rightarrow> y # List.map_filter f xs)"
  by (simp add: List.map_filter_def split: option.splits)

lemma map_filter_Nil: "List.map_filter f [] = []"
  by (simp add: List.map_filter_def)

lemma collected_Cons:
  "collected parse acc (l # ls) =
     (case prerelease_of_line l of
        None \<Rightarrow> collected parse acc ls
      | Some v \<Rightarrow> (case parse v of None \<Rightarrow> None | Some _ \<Rightarrow> collected parse (acc @ [v]) ls))"
  by (auto simp: collected_def map_filter_Cons split: option.splits)

lemma collected_single_empty: "collected parse acc [[]] = Some acc"
  by (simp add: collected_def map_filter_Cons map_filter_Nil prerelease_of_line_def)

lemma collected_Nil: "collected parse acc [] = Some acc"
  by (simp add: collected_def map_filter_Nil)

lemma prerelease_loop_lines:
  "n < length body \<Longrightarrow>
   prerelease_loop parse body (Some n) acc =
     collected parse acc (split_lines (drop (Suc n) body))"
proof (induction "length body - n" arbitrary: n acc rule: less_induct)
  case less
  let ?P = "\<lambda>c. c \<in> set nl_chars"
  let ?rest = "drop (Suc n) body"
  show ?case
  proof (cases "length body > n + 1")
    case False
    then have "?rest = []" by simp
    then show ?thesis using False
      by (simp add: split_lines_def collected_single_empty)
  next
    case True
    show ?thesis
    proof (cases "find_idx ?P ?rest")
      case None
      then have nexn: "find_first_of body nl_chars (n + 1) = None"
        by (simp add: find_first_of_def)
      have lines: "split_lines ?rest = [?rest]"
        using None by (simp add: split_lines_def split_where_no_sep)
      show ?thesis
        using True nexn
        by (subst prerelease_loop.simps)
           (simp add: lines collected_Cons collected_Nil prerelease_of_line_def
              substr_def substr_from_def split: option.splits)
    next
      case (Some i)
      let ?m = "i + (n + 1)"
      from Some have nexn: "find_first_of body nl_chars (n + 1) = Some ?m"
        by (simp add: find_first_of_def)
      from find_idx_Some [OF Some] have i: "i < length ?rest" by simp
      then have m: "?m < length body" by simp
      have lines: "split_lines ?rest = take i ?rest # split_lines (drop (Suc ?m) body)"
        using Some by (simp add: split_lines_def split_where_at_sep add.commute)
      have IH: "prerelease_loop parse body (Some (Suc (i + n))) acc' =
          collected parse acc' (split_lines (drop (Suc (Suc (i + n))) body))" for acc'
        using less.hyps [of "Suc (i + n)" acc'] m less.prems by simp
      have line: "substr body (n + 1) (?m - n - 1) = take i ?rest"
        by (simp add: substr_def)
      show ?thesis
        using True nexn
        by (subst prerelease_loop.simps)
           (simp add: lines collected_Cons IH line prerelease_of_line_def
              substr_def substr_from_def split: option.splits del: prerelease_loop.simps)
    qed
  qed
qed

lemma prerelease_loop_body:
  "prerelease_loop parse body (find_first_of body nl_chars 0) [] =
     (if \<forall>v \<in> set (prerelease_strings body). parse v \<noteq> None
      then Some (prerelease_strings body) else None)"
proof (cases "find_idx (\<lambda>c. c \<in> set nl_chars) body")
  case None
  then have "split_lines body = [body]"
    by (simp add: split_lines_def split_where_no_sep)
  then show ?thesis using None
    by (simp add: find_first_of_def prerelease_strings_def map_filter_Nil)
next
  case (Some i)
  from find_idx_Some [OF Some] have i: "i < length body" by simp
  have "split_lines body = take i body # split_lines (drop (Suc i) body)"
    using Some by (simp add: split_lines_def split_where_at_sep)
  then show ?thesis using Some i
    by (simp add: find_first_of_def prerelease_strings_def prerelease_loop_lines collected_def
        del: prerelease_loop.simps)
qed

lemma parse_version_string_lines:
  "parse_version_string parse lt body =
     (case parse (first_line body) of
        None \<Rightarrow> []
      | Some release_version \<Rightarrow>
          EVT_SLIC3R_VERSION_ONLINE (first_line body) #
          (if \<forall>v \<in> set (prerelease_strings body). parse v \<noteq> None
           then (case find_recent parse lt release_version (prerelease_strings body) None of
                   None \<Rightarrow> []
                 | Some (recent_version, version) \<Rightarrow> [EVT_SLIC3R_EXPERIMENTAL_VERSION_ONLINE version])
           else []))"
  unfolding parse_version_string_def Let_def version_is_first_line prerelease_loop_body
  by (simp split: option.splits)

lemma find_recent_emitted:
  "find_recent parse lt rel prs recent \<noteq> None \<longleftrightarrow>
     recent \<noteq> None \<or> (\<exists>v \<in> set prs. \<exists>ver. parse v = Some ver \<and> lt rel ver)"
  by (induction prs arbitrary: recent) (auto split: option.splits)

lemma find_recent_member:
  "find_recent parse lt rel prs recent = Some (ver, s) \<Longrightarrow>
     recent = Some (ver, s) \<or> (s \<in> set prs \<and> parse s = Some ver \<and> lt rel ver)"
proof (induction prs arbitrary: recent)
  case Nil
  then show ?case by simp
next
  case (Cons v prs)
  from Cons.IH [OF Cons.prems [simplified]] show ?case
    by (auto split: option.splits if_splits)
qed

lemma find_recent_maximal:
  assumes irrefl: "\<And>a. \<not> lt a a"
    and trans: "\<And>a b c. lt a b \<Longrightarrow> lt b c \<Longrightarrow> lt a c"
  shows "find_recent parse lt rel prs recent = Some (ver, s) \<Longrightarrow>
     (\<And>r t w. recent = Some (r, t) \<Longrightarrow> w \<in> W \<Longrightarrow> \<not> lt r w) \<Longrightarrow>
     (recent = None \<Longrightarrow> W = {}) \<Longrightarrow>
     w \<in> W \<or> (\<exists>v \<in> set prs. parse v = Some w \<and> lt rel w) \<Longrightarrow> \<not> lt ver w"
proof (induction prs arbitrary: recent W)
  case Nil
  then show ?case by auto
next
  case (Cons v prs)
  let ?taken = "\<lambda>x. lt rel x \<and> ((recent \<noteq> None \<and> lt (fst (the recent)) x) \<or> recent = None)"
  let ?recent' = "case parse v of
          Some x \<Rightarrow> if ?taken x then Some (x, v) else recent
        | None \<Rightarrow> recent"
  let ?W' = "W \<union> {x. parse v = Some x \<and> lt rel x}"
  have run: "find_recent parse lt rel prs ?recent' = Some (ver, s)"
    using Cons.prems(1) by simp
  have inv: "\<not> lt r x" if "?recent' = Some (r, t)" "x \<in> ?W'" for r t x
  proof (cases "parse v")
    case None
    with that Cons.prems(2) show ?thesis by auto
  next
    case (Some y)
    show ?thesis
    proof (cases "?taken y")
      case True
      with Some that(1) have r: "r = y" by simp
      show ?thesis
      proof (cases "x \<in> W")
        case inW: True
        with Cons.prems(3) obtain p q where p: "recent = Some (p, q)"
          by (cases recent) auto
        with True have "lt p y" by simp
        moreover from Cons.prems(2) [OF p inW] have "\<not> lt p x" .
        ultimately have "\<not> lt y x" using trans by blast
        with r show ?thesis by simp
      next
        case False
        with that(2) Some have "x = y" by auto
        with r irrefl show ?thesis by simp
      qed
    next
      case False
      with Some that(1) have same: "recent = Some (r, t)" by (simp split: if_splits) blast
      show ?thesis
      proof (cases "x \<in> W")
        case True
        with same Cons.prems(2) show ?thesis by blast
      next
        case notW: False
        with that(2) Some have "x = y" "lt rel y" by auto
        with False same show ?thesis by simp
      qed
    qed
  qed
  have empty: "?W' = {}" if "?recent' = None"
    using that Cons.prems(3) by (auto split: option.splits if_splits)
  have "w \<in> ?W' \<or> (\<exists>v \<in> set prs. parse v = Some w \<and> lt rel w)"
    using Cons.prems(4) by auto
  from Cons.IH [OF run inv empty this] show ?case by simp
qed

lemma prerelease_less_irrefl: "\<not> prerelease_less a a"
  by (simp add: prerelease_less_def split: option.splits)

lemma prerelease_less_trans:
  "prerelease_less a b \<Longrightarrow> prerelease_less b c \<Longrightarrow> prerelease_less a c"
  by (auto simp: prerelease_less_def split: option.splits)

lemma semver_less_irrefl: "\<not> semver_less a a"
  by (simp add: semver_less_def prerelease_less_irrefl)

lemma semver_less_trans: "semver_less a b \<Longrightarrow> semver_less b c \<Longrightarrow> semver_less a c"
  unfolding semver_less_def using prerelease_less_trans [of "prerelease a" "prerelease b" "prerelease c"]
  by (elim disjE conjE) simp_all

lemma semver_less_total: "semver_less a b \<or> semver_less b a \<or> a = b"
  by (cases a; cases b) (auto simp: semver_less_def prerelease_less_def split: option.splits)


lemma prerelease_of_line_invalid:
  assumes "(take 6 line = ''alpha='' \<and> parse (drop 6 line) = None) \<or>
           (take 5 line = ''beta='' \<and> parse (drop 5 line) = None)"
  shows "\<exists>v. prerelease_of_line line = Some v \<and> parse v = None"
proof -
  have "take 6 line \<noteq> ''alpha=''" if "take 5 line = ''beta=''"
  proof
    assume "take 6 line = ''alpha=''"
    then have "take 5 (take 6 line) = ''alpha''" by simp
    with that show False by simp
  qed
  with assms show ?thesis by (auto simp: prerelease_of_line_def)
qed

lemma map_filter_member:
  "x \<in> set xs \<Longrightarrow> f x = Some y \<Longrightarrow> y \<in> set (List.map_filter f xs)"
  by (auto simp: List.map_filter_def intro!: image_eqI [where x = x])

section \<open>Notifications of the version parser\<close>

lemmas version_eval =
  parse_version_string_def find_first_of_def nl_chars_def substr_def substr_from_def
  semver_parse_def parse_number_def is_digit_def semver_less_def prerelease_less_def
  first_line_def split_lines_def prerelease_strings_def prerelease_of_line_def
  List.map_filter_def

text \<open>
  C3. When the first line of the body is not a valid semantic version,
  \<^verbatim>\<open>parse_version_string\<close> queues no notification at all.
\<close>

theorem invalid_release_no_notifications:
  "parse (first_line body) = None \<Longrightarrow> parse_version_string parse lt body = []"
  by (simp add: parse_version_string_lines)

theorem invalid_release_no_notifications_witness:
  "semver_parse (first_line ''v1.2.3\<newline>alpha=1.3.0-alpha'') = None \<and>
   parse_version_string semver_parse semver_less ''v1.2.3\<newline>alpha=1.3.0-alpha'' = []"
proof -
  have "semver_parse (first_line ''v1.2.3\<newline>alpha=1.3.0-alpha'') = None"
    by (simp add: version_eval)
  with invalid_release_no_notifications
    [of semver_parse "''v1.2.3\<newline>alpha=1.3.0-alpha''" semver_less]
  show ?thesis by simp
qed

text \<open>
  C1, as the code has it. The notification of the release version is queued as
  soon as the first line has parsed, before the later lines are read. When a
  later line starts with \<open>alpha=\<close> or \<open>beta=\<close> and what follows is not a valid
  semantic version, the function returns there: no notification of an
  experimental version is queued, and the notification of the release version
  is the only one.
\<close>

theorem invalid_prerelease_only_release_notified:
  assumes "parse (first_line body) = Some rel"
    and "line \<in> set (tl (split_lines body))"
    and "(take 6 line = ''alpha='' \<and> parse (drop 6 line) = None) \<or>
         (take 5 line = ''beta='' \<and> parse (drop 5 line) = None)"
  shows "parse_version_string parse lt body = [EVT_SLIC3R_VERSION_ONLINE (first_line body)]"
proof -
  from prerelease_of_line_invalid [OF assms(3)] obtain v
    where v: "prerelease_of_line line = Some v" "parse v = None" by blast
  from map_filter_member [of line "tl (split_lines body)" prerelease_of_line v, OF assms(2) v(1)]
  have "v \<in> set (prerelease_strings body)"
    by (simp add: prerelease_strings_def)
  with v(2) have "\<not> (\<forall>v \<in> set (prerelease_strings body). parse v \<noteq> None)" by blast
  with assms(1) show ?thesis by (auto simp: parse_version_string_lines)
qed

theorem invalid_prerelease_only_release_notified_witness:
  "semver_parse (first_line ''2.6.0\<newline>alpha=2.7.0-alpha1\<newline>beta=2.7'') = Some (Semver 2 6 0 None) \<and>
   ''beta=2.7'' \<in> set (tl (split_lines ''2.6.0\<newline>alpha=2.7.0-alpha1\<newline>beta=2.7'')) \<and>
   semver_parse ''2.7'' = None \<and>
   parse_version_string semver_parse semver_less ''2.6.0\<newline>alpha=2.7.0-alpha1\<newline>beta=2.7'' =
     [EVT_SLIC3R_VERSION_ONLINE ''2.6.0'']"
proof -
  let ?body = "''2.6.0\<newline>alpha=2.7.0-alpha1\<newline>beta=2.7''"
  have rel: "semver_parse (first_line ?body) = Some (Semver 2 6 0 None)"
    by (simp add: version_eval)
  have line: "''beta=2.7'' \<in> set (tl (split_lines ?body))"
    by (simp add: version_eval)
  have bad: "(take 6 ''beta=2.7'' = ''alpha='' \<and> semver_parse (drop 6 ''beta=2.7'') = None) \<or>
         (take 5 ''beta=2.7'' = ''beta='' \<and> semver_parse (drop 5 ''beta=2.7'') = None)"
    by (simp add: version_eval)
  have first: "first_line ?body = ''2.6.0''"
    by (simp add: version_eval)
  from invalid_prerelease_only_release_notified [OF rel line bad, of semver_less] rel line first
  show ?thesis by (simp add: version_eval)
qed

theorem invalid_prerelease_still_notifies_release:
  "semver_parse (first_line ''1.2.3\<newline>alpha=notaversion'') = Some (Semver 1 2 3 None) \<and>
   ''alpha=notaversion'' \<in> set (tl (split_lines ''1.2.3\<newline>alpha=notaversion'')) \<and>
   semver_parse ''notaversion'' = None \<and>
   parse_version_string semver_parse semver_less ''1.2.3\<newline>alpha=notaversion'' =
     [EVT_SLIC3R_VERSION_ONLINE ''1.2.3'']"
  by (simp add: version_eval)
text \<open>
  C2, as the code has it. A notification of an experimental version is queued
  exactly when the first line is a valid semantic version, every string after
  \<open>alpha=\<close> or \<open>beta=\<close> is one too, and one of these prerelease versions is
  greater than the release version. The string it carries is one of the
  prerelease strings, greater than the release version, and no prerelease
  version greater than the release version is greater than it: it is the
  maximum. \<open>lt\<close> is any order that is irreflexive and transitive. The two
  examples of the claim follow.
\<close>

theorem experimental_is_maximum_prerelease:
  assumes strict: "\<forall>a. \<not> lt a a"
    and transitive: "\<forall>a b c. lt a b \<longrightarrow> lt b c \<longrightarrow> lt a c"
  shows "((\<exists>s. EVT_SLIC3R_EXPERIMENTAL_VERSION_ONLINE s \<in> set (parse_version_string parse lt body)) \<longleftrightarrow>
          (\<exists>rel. parse (first_line body) = Some rel \<and>
             (\<forall>v \<in> set (prerelease_strings body). parse v \<noteq> None) \<and>
             (\<exists>v \<in> set (prerelease_strings body). \<exists>ver. parse v = Some ver \<and> lt rel ver))) \<and>
         (\<forall>s rel. EVT_SLIC3R_EXPERIMENTAL_VERSION_ONLINE s \<in> set (parse_version_string parse lt body) \<and>
             parse (first_line body) = Some rel \<longrightarrow>
             s \<in> set (prerelease_strings body) \<and>
             (\<exists>ver. parse s = Some ver \<and> lt rel ver \<and>
                (\<forall>v \<in> set (prerelease_strings body). \<forall>w. parse v = Some w \<and> lt rel w \<longrightarrow> \<not> lt ver w))) \<and>
         parse_version_string semver_parse semver_less
             ''1.2.3\<newline>alpha=1.3.0-alpha\<newline>beta=1.4.0-beta'' =
           [EVT_SLIC3R_VERSION_ONLINE ''1.2.3'', EVT_SLIC3R_EXPERIMENTAL_VERSION_ONLINE ''1.4.0-beta''] \<and>
         parse_version_string semver_parse semver_less ''1.2.3\<newline>alpha=1.0.0-alpha'' =
           [EVT_SLIC3R_VERSION_ONLINE ''1.2.3'']"
proof -
  from strict have irrefl: "\<And>a. \<not> lt a a" by blast
  from transitive have trans: "\<And>a b c. lt a b \<Longrightarrow> lt b c \<Longrightarrow> lt a c" by blast
  let ?prs = "prerelease_strings body"
  let ?out = "parse_version_string parse lt body"
  have emitted: "(\<exists>s. EVT_SLIC3R_EXPERIMENTAL_VERSION_ONLINE s \<in> set ?out) \<longleftrightarrow>
          (\<exists>rel. parse (first_line body) = Some rel \<and>
             (\<forall>v \<in> set ?prs. parse v \<noteq> None) \<and>
             (\<exists>v \<in> set ?prs. \<exists>ver. parse v = Some ver \<and> lt rel ver))"
  proof (cases "parse (first_line body)")
    case None
    then show ?thesis by (simp add: parse_version_string_lines)
  next
    case (Some rel)
    show ?thesis
    proof (cases "\<forall>v \<in> set ?prs. parse v \<noteq> None")
      case False
      with Some have "?out = [EVT_SLIC3R_VERSION_ONLINE (first_line body)]"
        by (auto simp: parse_version_string_lines)
      with False show ?thesis by auto
    next
      case True
      have out: "?out = EVT_SLIC3R_VERSION_ONLINE (first_line body) #
          (case find_recent parse lt rel ?prs None of
             None \<Rightarrow> []
           | Some (recent_version, version) \<Rightarrow> [EVT_SLIC3R_EXPERIMENTAL_VERSION_ONLINE version])"
        using Some True by (simp add: parse_version_string_lines)
      have "(\<exists>s. EVT_SLIC3R_EXPERIMENTAL_VERSION_ONLINE s \<in> set ?out) \<longleftrightarrow>
          find_recent parse lt rel ?prs None \<noteq> None"
        unfolding out by (cases "find_recent parse lt rel ?prs None") auto
      also have "\<dots> \<longleftrightarrow> (\<exists>v \<in> set ?prs. \<exists>ver. parse v = Some ver \<and> lt rel ver)"
        using find_recent_emitted [of parse lt rel ?prs None] by simp
      finally show ?thesis using Some True by simp
    qed
  qed
  have carried: "s \<in> set ?prs \<and>
             (\<exists>ver. parse s = Some ver \<and> lt rel ver \<and>
                (\<forall>v \<in> set ?prs. \<forall>w. parse v = Some w \<and> lt rel w \<longrightarrow> \<not> lt ver w))"
    if ev: "EVT_SLIC3R_EXPERIMENTAL_VERSION_ONLINE s \<in> set ?out"
      and rel: "parse (first_line body) = Some rel" for s rel
  proof -
    from ev emitted have valid: "\<forall>v \<in> set ?prs. parse v \<noteq> None" by blast
    have out: "?out = EVT_SLIC3R_VERSION_ONLINE (first_line body) #
          (case find_recent parse lt rel ?prs None of
             None \<Rightarrow> []
           | Some (recent_version, version) \<Rightarrow> [EVT_SLIC3R_EXPERIMENTAL_VERSION_ONLINE version])"
      using rel valid by (simp add: parse_version_string_lines)
    have "\<exists>ver. find_recent parse lt rel ?prs None = Some (ver, s)"
      using ev unfolding out by (cases "find_recent parse lt rel ?prs None") auto
    then obtain ver where found: "find_recent parse lt rel ?prs None = Some (ver, s)" ..
    from find_recent_member [OF found] have mem: "s \<in> set ?prs" "parse s = Some ver" "lt rel ver"
      by auto
    have "\<not> lt ver w" if "v \<in> set ?prs" "parse v = Some w" "lt rel w" for v w
    proof (rule find_recent_maximal [OF irrefl trans found, where W = "{}"])
      show "w \<in> {} \<or> (\<exists>v \<in> set ?prs. parse v = Some w \<and> lt rel w)"
        using that by blast
    qed simp_all
    with mem show ?thesis by blast
  qed
  have ex1: "parse_version_string semver_parse semver_less
             ''1.2.3\<newline>alpha=1.3.0-alpha\<newline>beta=1.4.0-beta'' =
           [EVT_SLIC3R_VERSION_ONLINE ''1.2.3'', EVT_SLIC3R_EXPERIMENTAL_VERSION_ONLINE ''1.4.0-beta'']"
    by (simp add: version_eval)
  have ex2: "parse_version_string semver_parse semver_less ''1.2.3\<newline>alpha=1.0.0-alpha'' =
           [EVT_SLIC3R_VERSION_ONLINE ''1.2.3'']"
    by (simp add: version_eval)
  from emitted carried ex1 ex2 show ?thesis by blast
qed

theorem experimental_is_maximum_prerelease_witness:
  "EVT_SLIC3R_EXPERIMENTAL_VERSION_ONLINE ''2.7.0-beta1'' \<in>
     set (parse_version_string semver_parse semver_less
       ''2.6.0\<newline>beta=2.7.0-beta1\<newline>alpha=2.7.0-alpha2\<newline>alpha=2.5.0-alpha1'') \<and>
   ''2.7.0-beta1'' \<in>
     set (prerelease_strings ''2.6.0\<newline>beta=2.7.0-beta1\<newline>alpha=2.7.0-alpha2\<newline>alpha=2.5.0-alpha1'') \<and>
   \<not> semver_less (Semver 2 7 0 (Some ''beta1'')) (Semver 2 7 0 (Some ''alpha2''))"
proof -
  let ?body = "''2.6.0\<newline>beta=2.7.0-beta1\<newline>alpha=2.7.0-alpha2\<newline>alpha=2.5.0-alpha1''"
  have ev: "EVT_SLIC3R_EXPERIMENTAL_VERSION_ONLINE ''2.7.0-beta1'' \<in>
      set (parse_version_string semver_parse semver_less ?body)"
    by (simp add: version_eval)
  have rel: "semver_parse (first_line ?body) = Some (Semver 2 6 0 None)"
    by (simp add: version_eval)
  have other: "''2.7.0-alpha2'' \<in> set (prerelease_strings ?body)"
    "semver_parse ''2.7.0-alpha2'' = Some (Semver 2 7 0 (Some ''alpha2''))"
    "semver_less (Semver 2 6 0 None) (Semver 2 7 0 (Some ''alpha2''))"
    "semver_parse ''2.7.0-beta1'' = Some (Semver 2 7 0 (Some ''beta1''))"
    by (simp_all add: version_eval)
  have irrefl: "\<forall>a. \<not> semver_less a a"
    by (simp add: semver_less_irrefl)
  have trans: "\<forall>a b c. semver_less a b \<longrightarrow> semver_less b c \<longrightarrow> semver_less a c"
    using semver_less_trans by blast
  from experimental_is_maximum_prerelease
    [where lt = semver_less and parse = semver_parse and body = ?body, OF irrefl trans]
  have "\<forall>s rel. EVT_SLIC3R_EXPERIMENTAL_VERSION_ONLINE s \<in>
             set (parse_version_string semver_parse semver_less ?body) \<and>
             semver_parse (first_line ?body) = Some rel \<longrightarrow>
             s \<in> set (prerelease_strings ?body) \<and>
             (\<exists>ver. semver_parse s = Some ver \<and> semver_less rel ver \<and>
                (\<forall>v \<in> set (prerelease_strings ?body).
                   \<forall>w. semver_parse v = Some w \<and> semver_less rel w \<longrightarrow> \<not> semver_less ver w))"
    by blast
  with ev rel have "''2.7.0-beta1'' \<in> set (prerelease_strings ?body) \<and>
      (\<exists>ver. semver_parse ''2.7.0-beta1'' = Some ver \<and>
         (\<forall>v \<in> set (prerelease_strings ?body).
            \<forall>w. semver_parse v = Some w \<and> semver_less (Semver 2 6 0 None) w \<longrightarrow> \<not> semver_less ver w))"
    by blast
  with other ev show ?thesis by auto
qed

theorem prerelease_greater_but_not_notified:
  "semver_parse (first_line ''1.2.3\<newline>alpha=1.3.0-alpha\<newline>beta=notaversion'') =
     Some (Semver 1 2 3 None) \<and>
   ''alpha=1.3.0-alpha'' \<in> set (tl (split_lines ''1.2.3\<newline>alpha=1.3.0-alpha\<newline>beta=notaversion'')) \<and>
   semver_parse ''1.3.0-alpha'' = Some (Semver 1 3 0 (Some ''alpha'')) \<and>
   semver_less (Semver 1 2 3 None) (Semver 1 3 0 (Some ''alpha'')) \<and>
   parse_version_string semver_parse semver_less
       ''1.2.3\<newline>alpha=1.3.0-alpha\<newline>beta=notaversion'' =
     [EVT_SLIC3R_VERSION_ONLINE ''1.2.3'']"
  by (simp add: version_eval)

section \<open>Download progress\<close>

lemma published_increasing:
  "sorted_wrt (<) (published last_pub cs) \<and> (\<forall>c \<in> set (published last_pub cs). last_pub < c)"
proof (induction cs arbitrary: last_pub)
  case Nil
  then show ?case by simp
next
  case (Cons current rest)
  show ?case
  proof (cases "last_pub < current \<and> \<not> (last_pub = 0 \<and> current = 100)")
    case True
    from Cons.IH [of current] have "sorted_wrt (<) (published current rest)"
      and above: "\<forall>c \<in> set (published current rest). current < c" by simp_all
    moreover from above True have "\<forall>c \<in> set (published current rest). last_pub < c"
      by auto
    ultimately show ?thesis using True by simp
  next
    case False
    with Cons.IH [of last_pub] show ?thesis by auto
  qed
qed

lemma download_progress_fn_step:
  "download_progress_fn progress st =
     (if last_gui_progress st < gui_progress_of progress \<and>
         \<not> (last_gui_progress st = 0 \<and> gui_progress_of progress = 100)
      then st\<lparr>last_gui_progress := gui_progress_of progress,
              events := events st @
                [EVT_SLIC3R_APP_DOWNLOAD_PROGRESS (to_string (unat (gui_progress_of progress)))]\<rparr>
      else st)"
  by (auto simp: download_progress_fn_def Let_def)

lemma download_progress_run:
  "events (foldl (\<lambda>s p. download_progress_fn p s) st samples) =
     events st @
     map (\<lambda>g. EVT_SLIC3R_APP_DOWNLOAD_PROGRESS (to_string (unat g)))
       (published (last_gui_progress st) (map gui_progress_of samples)) \<and>
   last_gui_progress (foldl (\<lambda>s p. download_progress_fn p s) st samples) =
     last (last_gui_progress st # published (last_gui_progress st) (map gui_progress_of samples))"
proof (induction samples arbitrary: st)
  case Nil
  then show ?case by simp
next
  case (Cons p samples)
  let ?st' = "st\<lparr>last_gui_progress := gui_progress_of p,
              events := events st @
                [EVT_SLIC3R_APP_DOWNLOAD_PROGRESS (to_string (unat (gui_progress_of p)))]\<rparr>"
  show ?case
  proof (cases "last_gui_progress st < gui_progress_of p \<and>
         \<not> (last_gui_progress st = 0 \<and> gui_progress_of p = 100)")
    case True
    then have step: "download_progress_fn p st = ?st'"
      by (simp add: download_progress_fn_step)
    have pub: "published (last_gui_progress st) (gui_progress_of p # map gui_progress_of samples) =
        gui_progress_of p # published (gui_progress_of p) (map gui_progress_of samples)"
      using True by simp
    show ?thesis
      using Cons.IH [of ?st'] by (simp add: step pub del: published.simps)
  next
    case False
    then have step: "download_progress_fn p st = st"
      by (auto simp: download_progress_fn_step)
    have pub: "published (last_gui_progress st) (gui_progress_of p # map gui_progress_of samples) =
        published (last_gui_progress st) (map gui_progress_of samples)"
      using False by auto
    show ?thesis
      using Cons.IH [of st] by (simp add: step pub del: published.simps)
  qed
qed

lemma gui_progress_exact:
  assumes "100 * unat (dlnow progress) < 2 ^ 64"
  shows "unat (gui_progress_of progress) =
     (if 0 < unat (dltotal progress)
      then 100 * unat (dlnow progress) div unat (dltotal progress) else 0)"
proof -
  have "unat (100 * dlnow progress) = 100 * unat (dlnow progress)"
    using assms by (simp add: unat_word_ariths)
  then show ?thesis
    by (simp add: gui_progress_of_def unat_div word_gt_0 unat_gt_0)
qed

text \<open>
  C4. The progress handler of \<^verbatim>\<open>download_file\<close> computes the percentage
  \<open>100 * dlnow / dltotal\<close> in \<^verbatim>\<open>size_t\<close>, or 0 when \<open>dltotal\<close> is 0, which is
  the percentage of the numbers whenever \<open>100 * dlnow\<close> does not overflow. It
  publishes the percentage exactly when it exceeds the last published one and
  is not 100 after 0, and then makes it the last published one. Over any
  sequence of samples the events queued are those of \<^const>\<open>published\<close>; the
  raw percentages 0, 0, 50, 100 publish 50 and 100; and what is published is
  strictly increasing.
\<close>

theorem download_progress_publishing:
  "gui_progress_of progress =
     (if dltotal progress > 0 then 100 * dlnow progress div dltotal progress else 0) \<and>
   (100 * unat (dlnow progress) < 2 ^ 64 \<longrightarrow>
      unat (gui_progress_of progress) =
        (if 0 < unat (dltotal progress)
         then 100 * unat (dlnow progress) div unat (dltotal progress) else 0)) \<and>
   download_progress_fn progress st =
     (if last_gui_progress st < gui_progress_of progress \<and>
         \<not> (last_gui_progress st = 0 \<and> gui_progress_of progress = 100)
      then st\<lparr>last_gui_progress := gui_progress_of progress,
              events := events st @
                [EVT_SLIC3R_APP_DOWNLOAD_PROGRESS (to_string (unat (gui_progress_of progress)))]\<rparr>
      else st) \<and>
   events (foldl (\<lambda>s p. download_progress_fn p s) st samples) =
     events st @
     map (\<lambda>g. EVT_SLIC3R_APP_DOWNLOAD_PROGRESS (to_string (unat g)))
       (published (last_gui_progress st) (map gui_progress_of samples)) \<and>
   published 0 [0, 0, 50, 100] = [50, 100] \<and>
   sorted_wrt (<) (published (last_gui_progress st) (map gui_progress_of samples))"
proof -
  have "published 0 [0, 0, 50, 100] = [50, 100]"
    by simp
  then show ?thesis
    using gui_progress_exact [of progress] download_progress_fn_step [of progress st]
      download_progress_run [of st samples]
      published_increasing [of "last_gui_progress st" "map gui_progress_of samples"]
    by (simp add: gui_progress_of_def)
qed

theorem download_progress_publishing_witness:
  "100 * unat (dlnow \<lparr>dltotal = 200, dlnow = 100\<rparr>) < (2 :: nat) ^ 64 \<and>
   unat (gui_progress_of \<lparr>dltotal = 200, dlnow = 100\<rparr>) = 50 \<and>
   map gui_progress_of
     [\<lparr>dltotal = 0, dlnow = 0\<rparr>, \<lparr>dltotal = 200, dlnow = 0\<rparr>,
      \<lparr>dltotal = 200, dlnow = 100\<rparr>, \<lparr>dltotal = 200, dlnow = 200\<rparr>] = [0, 0, 50, 100] \<and>
   events (foldl (\<lambda>s p. download_progress_fn p s)
       \<lparr>events = [], files = Map.empty, requests = [], last_gui_progress = 0,
         error_message = [], res = False\<rparr>
       [\<lparr>dltotal = 0, dlnow = 0\<rparr>, \<lparr>dltotal = 200, dlnow = 0\<rparr>,
        \<lparr>dltotal = 200, dlnow = 100\<rparr>, \<lparr>dltotal = 200, dlnow = 200\<rparr>]) =
     [EVT_SLIC3R_APP_DOWNLOAD_PROGRESS ''50'', EVT_SLIC3R_APP_DOWNLOAD_PROGRESS ''100'']"
proof -
  let ?st = "\<lparr>events = [], files = Map.empty, requests = [], last_gui_progress = 0,
         error_message = [], res = False\<rparr>"
  let ?samples = "[\<lparr>dltotal = 0, dlnow = 0\<rparr>, \<lparr>dltotal = 200, dlnow = 0\<rparr>,
      \<lparr>dltotal = 200, dlnow = 100\<rparr>, \<lparr>dltotal = 200, dlnow = 200\<rparr>]"
  have raw: "map gui_progress_of ?samples = [0, 0, 50, 100]"
    by (simp add: gui_progress_of_def)
  have s50: "to_string 50 = ''50''" and s100: "to_string 100 = ''100''"
    by (simp_all add: to_string.simps)
  from download_progress_publishing [of "\<lparr>dltotal = 200, dlnow = 100\<rparr>" ?st ?samples]
  have "events (foldl (\<lambda>s p. download_progress_fn p s) ?st ?samples) =
     events ?st @
     map (\<lambda>g. EVT_SLIC3R_APP_DOWNLOAD_PROGRESS (to_string (unat g)))
       (published (last_gui_progress ?st) (map gui_progress_of ?samples))"
    by blast
  then have "events (foldl (\<lambda>s p. download_progress_fn p s) ?st ?samples) =
     [EVT_SLIC3R_APP_DOWNLOAD_PROGRESS ''50'', EVT_SLIC3R_APP_DOWNLOAD_PROGRESS ''100'']"
    unfolding raw by (simp add: s50 s100)
  moreover have small: "100 * unat (dlnow \<lparr>dltotal = 200, dlnow = 100\<rparr>) < (2 :: nat) ^ 64"
    by simp
  moreover from download_progress_publishing [of "\<lparr>dltotal = 200, dlnow = 100\<rparr>" ?st ?samples] small
  have "unat (gui_progress_of \<lparr>dltotal = 200, dlnow = 100\<rparr>) = 50"
    by simp
  ultimately show ?thesis using raw by blast
qed

section \<open>What a download does\<close>

lemma http_get_file_callbacks:
  "http_get_file u n f g t st =
     perform_sync u n (progress_cb f)
       (\<lambda>body error http_status s.
          s\<lparr>error_message :=
              ''Error getting: `'' @ u @ ''`: HTTP '' @ to_string http_status @ '', '' @ error\<rparr>)
       (\<lambda>body http_status s. case g body s of (r, s') \<Rightarrow> s'\<lparr>res := r\<rparr>)
       t (st\<lparr>res := False\<rparr>)"
proof -
  have "(\<lambda>progress m_cancel_now s.
          let cancel = m_cancel_now;
              s' = f progress s
          in (cancel, if cancel then s'\<lparr>error_message := ''Download was canceled.''\<rparr> else s')) =
        progress_cb f"
    by (intro ext) (simp add: progress_cb_def Let_def)
  then show ?thesis by (simp add: http_get_file_def)
qed

lemma run_ticks_frame:
  assumes "\<And>pr s. files (f pr s) = files s \<and> requests (f pr s) = requests s \<and> res (f pr s) = res s"
  shows "fst (run_ticks (progress_cb f) ts s) = (\<exists>tick \<in> set ts. snd tick) \<and>
     files (snd (run_ticks (progress_cb f) ts s)) = files s \<and>
     requests (snd (run_ticks (progress_cb f) ts s)) = requests s \<and>
     res (snd (run_ticks (progress_cb f) ts s)) = res s"
proof (induction ts arbitrary: s)
  case Nil
  then show ?case by simp
next
  case (Cons tick ts)
  obtain pr c where tick: "tick = (pr, c)" by (cases tick)
  show ?case
  proof (cases c)
    case True
    with tick assms [of pr s] show ?thesis by (simp add: progress_cb_def)
  next
    case False
    with tick assms [of pr s] Cons.IH [of "f pr s"] show ?thesis
      by (simp add: progress_cb_def)
  qed
qed

lemma download_progress_fn_frame:
  "files (download_progress_fn pr s) = files s \<and>
   requests (download_progress_fn pr s) = requests s \<and>
   res (download_progress_fn pr s) = res s"
  by (simp add: download_progress_fn_def Let_def)

lemma tmp_path_differs: "tmp_path_of e dest_path \<noteq> dest_path"
  by (simp add: tmp_path_of_def)

lemma download_complete_fn_stage:
  "download_complete_fn e dest_path body s =
     (\<not> fst (stage e dest_path body (files s)),
      s\<lparr>files := snd (stage e dest_path body (files s))\<rparr>)"
  by (simp add: download_complete_fn_def stage_def Let_def split: prod.splits bool.splits)

lemma stage_cases:
  "stage e dest_path body fs =
     (case fault e of
        NoFault \<Rightarrow> (False, (fs(tmp_path_of e dest_path := None))(dest_path \<mapsto> body))
      | WriteFails k \<Rightarrow> (False, (fs(tmp_path_of e dest_path := None))(dest_path \<mapsto> take k body))
      | OpenFails \<Rightarrow>
          (case fs (tmp_path_of e dest_path) of
             None \<Rightarrow> (True, fs)
           | Some old \<Rightarrow> (False, (fs(tmp_path_of e dest_path := None))(dest_path \<mapsto> old)))
      | RenameThrows \<Rightarrow> (True, fs(tmp_path_of e dest_path \<mapsto> body)))"
  by (simp add: stage_def fstream_write_def fs_rename_def split: fs_fault.splits option.splits)

lemma after_ticks_frame:
  assumes "\<And>pr s. files (f pr s) = files s \<and> requests (f pr s) = requests s \<and> res (f pr s) = res s"
  shows "files (after_ticks u n f t st) = files st"
    and "requests (after_ticks u n f t st) = requests st @ [(u, n)]"
    and "res (after_ticks u n f t st) = False"
  using run_ticks_frame [of f "ticks t" "st\<lparr>res := False, requests := requests st @ [(u, n)]\<rparr>", OF assms]
  by (simp_all add: after_ticks_def)

lemma http_get_file_outcome:
  assumes "\<And>pr s. files (f pr s) = files s \<and> requests (f pr s) = requests s \<and> res (f pr s) = res s"
  shows "http_get_file u n f g t st =
     (let s1 = after_ticks u n f t st
      in if cancel_seen t then s1
         else (case result t of
                 HttpError body error http_status \<Rightarrow>
                   s1\<lparr>error_message :=
                       ''Error getting: `'' @ u @ ''`: HTTP '' @ to_string http_status @ '', '' @ error\<rparr>
               | HttpComplete body http_status \<Rightarrow>
                   if length body > n
                   then s1\<lparr>error_message :=
                       ''Error getting: `'' @ u @ ''`: HTTP '' @ to_string http_status @ '', '' @
                       ''HTTP body data size exceeded limit''\<rparr>
                   else (case g body s1 of (r, s') \<Rightarrow> s'\<lparr>res := r\<rparr>)))"
proof -
  let ?s0 = "st\<lparr>res := False, requests := requests st @ [(u, n)]\<rparr>"
  obtain a s1 where run: "run_ticks (progress_cb f) (ticks t) ?s0 = (a, s1)"
    by (cases "run_ticks (progress_cb f) (ticks t) ?s0")
  from run_ticks_frame [of f "ticks t" ?s0, OF assms] run
  have a: "a = cancel_seen t" by (simp add: cancel_seen_def)
  from run have s1: "after_ticks u n f t st = s1" by (simp add: after_ticks_def)
  show ?thesis
    unfolding http_get_file_callbacks perform_sync_def s1 Let_def
    using run a by (simp split: http_result.splits)
qed

lemma download_file_empty_dest:
  "resolve_dest_path e p data = [] \<Longrightarrow>
     download_file e p data t st = ([], st\<lparr>last_gui_progress := 0\<rparr>)"
  by (simp add: download_file_def Let_def)

lemma download_file_run:
  assumes "resolve_dest_path e p data \<noteq> []"
  shows "download_file e p data t st =
     (let dest_path = resolve_dest_path e p data;
          s1 = after_ticks (url data) (70 * 1024 * 1024) download_progress_fn t
                 (st\<lparr>last_gui_progress := 0, error_message := []\<rparr>)
      in if cancel_seen t then ([], s1)
         else (case result t of
                 HttpError body error http_status \<Rightarrow>
                   ([], s1\<lparr>error_message :=
                       ''Error getting: `'' @ url data @ ''`: HTTP '' @ to_string http_status @ '', '' @ error\<rparr>)
               | HttpComplete body http_status \<Rightarrow>
                   if length body > 70 * 1024 * 1024
                   then ([], s1\<lparr>error_message :=
                       ''Error getting: `'' @ url data @ ''`: HTTP '' @ to_string http_status @ '', '' @
                       ''HTTP body data size exceeded limit''\<rparr>)
                   else (case download_complete_fn e dest_path body s1 of
                           (r, s') \<Rightarrow> (if r then dest_path else [], s'\<lparr>res := r\<rparr>))))"
proof -
  let ?s1 = "after_ticks (url data) (70 * 1024 * 1024) download_progress_fn t
                 (st\<lparr>last_gui_progress := 0, error_message := []\<rparr>)"
  have r: "res ?s1 = False"
    by (rule after_ticks_frame (3)) (rule download_progress_fn_frame)
  show ?thesis
    using assms r
    by (simp add: download_file_def Let_def
        http_get_file_outcome [of download_progress_fn, OF download_progress_fn_frame]
        split: http_result.splits prod.splits)
qed

lemma download_file_at_completion:
  "files (after_ticks (url data) (70 * 1024 * 1024) download_progress_fn t
       (st\<lparr>last_gui_progress := 0, error_message := []\<rparr>)) = files st"
  "requests (after_ticks (url data) (70 * 1024 * 1024) download_progress_fn t
       (st\<lparr>last_gui_progress := 0, error_message := []\<rparr>)) =
     requests st @ [(url data, 70 * 1024 * 1024)]"
  using after_ticks_frame (1,2) [of download_progress_fn "url data" "70 * 1024 * 1024" t
      "st\<lparr>last_gui_progress := 0, error_message := []\<rparr>", OF download_progress_fn_frame]
  by simp_all

lemma download_file_path:
  "fst (download_file e p data t st) =
     (if resolve_dest_path e p data \<noteq> [] \<and> staged e (resolve_dest_path e p data) t (files st)
      then resolve_dest_path e p data else [])"
proof (cases "resolve_dest_path e p data = []")
  case True
  then show ?thesis by (simp add: download_file_empty_dest)
next
  case False
  show ?thesis
    unfolding download_file_run [OF False] Let_def staged_def
    using False download_file_at_completion [of data t st]
    by (simp add: download_complete_fn_stage split: http_result.splits)
qed

lemma download_file_requests:
  "requests (snd (download_file e p data t st)) =
     requests st @
     (if resolve_dest_path e p data = [] then [] else [(url data, 70 * 1024 * 1024)])"
proof (cases "resolve_dest_path e p data = []")
  case True
  then show ?thesis by (simp add: download_file_empty_dest)
next
  case False
  show ?thesis
    unfolding download_file_run [OF False] Let_def
    using False download_file_at_completion [of data t st]
    by (simp add: download_complete_fn_stage split: http_result.splits)
qed

lemma download_file_files:
  "files (snd (download_file e p data t st)) =
     (if resolve_dest_path e p data = [] \<or> cancel_seen t then files st
      else (case result t of
              HttpError body error http_status \<Rightarrow> files st
            | HttpComplete body http_status \<Rightarrow>
                if length body > 70 * 1024 * 1024 then files st
                else snd (stage e (resolve_dest_path e p data) body (files st))))"
proof (cases "resolve_dest_path e p data = []")
  case True
  then show ?thesis by (simp add: download_file_empty_dest)
next
  case False
  show ?thesis
    unfolding download_file_run [OF False] Let_def
    using False download_file_at_completion [of data t st]
    by (simp add: download_complete_fn_stage split: http_result.splits)
qed

lemma filename_after_last_slash:
  assumes "CHR ''/'' \<in> set u"
  shows "(\<exists>pre. u = pre @ CHR ''/'' # get_filename_from_url u) \<and>
     CHR ''/'' \<notin> set (get_filename_from_url u)"
proof -
  from assms obtain q where q: "rfind u (CHR ''/'') = Some q"
    using rfind_None [of u "CHR ''/''"] by (cases "rfind u (CHR ''/'')") auto
  from rfind_Some [OF q] have "q < length u" "u ! q = CHR ''/''"
    and none: "CHR ''/'' \<notin> set (drop (Suc q) u)" by auto
  then have "u = take q u @ CHR ''/'' # drop (Suc q) u"
    using id_take_nth_drop [of q u] by simp
  moreover have "get_filename_from_url u = drop (Suc q) u"
    using q by (simp add: get_filename_from_url_def substr_from_def)
  ultimately show ?thesis using none by metis
qed

lemma version_check_requests:
  "requests (version_check parse lt u t st) = requests st @ [(u, 256)]"
proof -
  have frame: "\<And>pr s. files ((\<lambda>progress s. s) pr s) = files s \<and>
      requests ((\<lambda>progress s. s) pr s) = requests s \<and> res ((\<lambda>progress s. s) pr s) = res s"
    by simp
  have r: "requests (after_ticks u 256 (\<lambda>progress s. s) t (st\<lparr>error_message := []\<rparr>)) =
      requests st @ [(u, 256)]"
    using after_ticks_frame (2) [of "\<lambda>progress s. s" u 256 t "st\<lparr>error_message := []\<rparr>", OF frame]
    by simp
  show ?thesis
    unfolding version_check_def http_get_file_outcome [of "\<lambda>progress s. s", OF frame] Let_def
    using r by (simp split: http_result.splits)
qed

section \<open>Claims about the downloader\<close>

lemma completed_download:
  assumes "resolve_dest_path e p data \<noteq> []"
    and "\<not> (\<exists>tick \<in> set (ticks t). snd tick)"
    and "result t = HttpComplete body http_status"
    and "length body \<le> 70 * 1024 * 1024"
  shows "fst (download_file e p data t st) =
      (if fst (stage e (resolve_dest_path e p data) body (files st)) then []
       else resolve_dest_path e p data)"
    and "files (snd (download_file e p data t st)) =
      snd (stage e (resolve_dest_path e p data) body (files st))"
  using assms
  by (simp_all add: download_file_path download_file_files staged_def cancel_seen_def)

text \<open>
  C5. The destination of a download is the path the user has set when that is
  not empty, and otherwise the default folder joined with the file name of the
  URL, which is what follows its last \<open>/\<close>, or the whole URL when it has none.
  When the destination is empty, \<^verbatim>\<open>download_file\<close> returns the empty path at
  once: no request is made, no event is queued and no file is touched. When
  it is not empty, \<^verbatim>\<open>download_file\<close> makes its request, and a transfer that
  completes leaves the body at that destination, which is the path returned.
  No other path is ever returned.
\<close>

theorem destination_resolution:
  "resolve_dest_path e p data =
     (if m_user_dest_path p \<noteq> [] then m_user_dest_path p
      else path_append e (m_default_dest_folder p) (get_filename_from_url (url data))) \<and>
   (CHR ''/'' \<in> set (url data) \<longrightarrow>
      (\<exists>pre. url data = pre @ CHR ''/'' # get_filename_from_url (url data)) \<and>
      CHR ''/'' \<notin> set (get_filename_from_url (url data))) \<and>
   (CHR ''/'' \<notin> set (url data) \<longrightarrow> get_filename_from_url (url data) = url data) \<and>
   (resolve_dest_path e p data = [] \<longrightarrow>
      fst (download_file e p data t st) = [] \<and>
      requests (snd (download_file e p data t st)) = requests st \<and>
      events (snd (download_file e p data t st)) = events st \<and>
      files (snd (download_file e p data t st)) = files st) \<and>
   (resolve_dest_path e p data \<noteq> [] \<longrightarrow>
      requests (snd (download_file e p data t st)) = requests st @ [(url data, 70 * 1024 * 1024)]) \<and>
   (resolve_dest_path e p data \<noteq> [] \<and> \<not> (\<exists>tick \<in> set (ticks t). snd tick) \<and>
    result t = HttpComplete body http_status \<and> length body \<le> 70 * 1024 * 1024 \<and>
    fault e = NoFault \<longrightarrow>
      fst (download_file e p data t st) = resolve_dest_path e p data \<and>
      files (snd (download_file e p data t st)) =
        ((files st)(tmp_path_of e (resolve_dest_path e p data) := None))
          (resolve_dest_path e p data \<mapsto> body)) \<and>
   (fst (download_file e p data t st) = [] \<or>
    fst (download_file e p data t st) = resolve_dest_path e p data)"
proof -
  let ?dest = "resolve_dest_path e p data"
  let ?out = "download_file e p data t st"
  have a: "?dest =
     (if m_user_dest_path p \<noteq> [] then m_user_dest_path p
      else path_append e (m_default_dest_folder p) (get_filename_from_url (url data)))"
    by (simp add: resolve_dest_path_def)
  have b: "CHR ''/'' \<in> set (url data) \<longrightarrow>
      (\<exists>pre. url data = pre @ CHR ''/'' # get_filename_from_url (url data)) \<and>
      CHR ''/'' \<notin> set (get_filename_from_url (url data))"
    using filename_after_last_slash [of "url data"] by blast
  have c: "CHR ''/'' \<notin> set (url data) \<longrightarrow> get_filename_from_url (url data) = url data"
    by (auto simp: get_filename_from_url_def rfind_None [symmetric])
  have d: "?dest = [] \<longrightarrow>
      fst ?out = [] \<and> requests (snd ?out) = requests st \<and>
      events (snd ?out) = events st \<and> files (snd ?out) = files st"
    by (simp add: download_file_empty_dest)
  have f: "?dest \<noteq> [] \<longrightarrow>
      requests (snd ?out) = requests st @ [(url data, 70 * 1024 * 1024)]"
    by (simp add: download_file_requests)
  have g: "?dest \<noteq> [] \<and> \<not> (\<exists>tick \<in> set (ticks t). snd tick) \<and>
    result t = HttpComplete body http_status \<and> length body \<le> 70 * 1024 * 1024 \<and>
    fault e = NoFault \<longrightarrow>
      fst ?out = ?dest \<and>
      files (snd ?out) = ((files st)(tmp_path_of e ?dest := None))(?dest \<mapsto> body)"
  proof
    assume h: "?dest \<noteq> [] \<and> \<not> (\<exists>tick \<in> set (ticks t). snd tick) \<and>
      result t = HttpComplete body http_status \<and> length body \<le> 70 * 1024 * 1024 \<and>
      fault e = NoFault"
    then have "stage e ?dest body (files st) =
        (False, ((files st)(tmp_path_of e ?dest := None))(?dest \<mapsto> body))"
      by (simp add: stage_cases)
    with h completed_download [of e p data t body http_status st]
    show "fst ?out = ?dest \<and>
      files (snd ?out) = ((files st)(tmp_path_of e ?dest := None))(?dest \<mapsto> body)"
      by simp
  qed
  have i: "fst ?out = [] \<or> fst ?out = ?dest"
    by (simp add: download_file_path)
  from a b c d f g i show ?thesis by blast
qed

lemma failed_transfer_returns_empty_path:
  "((\<exists>tick \<in> set (ticks t). snd tick) \<or>
    (\<exists>body error http_status. result t = HttpError body error http_status) \<or>
    (\<exists>body http_status. result t = HttpComplete body http_status \<and>
       (length body > 70 * 1024 * 1024 \<or>
        fst (stage e (resolve_dest_path e p data) body (files st)))) \<longrightarrow>
      fst (download_file e p data t st) = []) \<and>
   ((\<exists>progress rest. ticks t = (progress, True) # rest) \<longrightarrow>
      fst (download_file e p data t st) = [] \<and>
      files (snd (download_file e p data t st)) = files st)"
proof -
  have "(\<exists>progress rest. ticks t = (progress, True) # rest) \<longrightarrow> cancel_seen t"
    by (auto simp: cancel_seen_def)
  then show ?thesis
    by (auto simp: download_file_path download_file_files staged_def cancel_seen_def)
qed

lemma silent_write_failure:
  assumes "resolve_dest_path e p data \<noteq> []"
    and "\<not> (\<exists>tick \<in> set (ticks t). snd tick)"
    and "result t = HttpComplete body http_status"
    and "length body \<le> 70 * 1024 * 1024"
    and "fault e = WriteFails k"
  shows "fst (download_file e p data t st) = resolve_dest_path e p data \<and>
     files (snd (download_file e p data t st)) =
       ((files st)(tmp_path_of e (resolve_dest_path e p data) := None))
         (resolve_dest_path e p data \<mapsto> take k body)"
proof -
  from assms(5) have "stage e (resolve_dest_path e p data) body (files st) =
      (False, ((files st)(tmp_path_of e (resolve_dest_path e p data) := None))
         (resolve_dest_path e p data \<mapsto> take k body))"
    by (simp add: stage_cases)
  with completed_download [OF assms(1-4), of st] show ?thesis by simp
qed

lemmas example_eval =
  example_env_def example_state_def example_transfer_def resolve_dest_path_def
  get_filename_from_url_def rfind_def substr_from_def

text \<open>
  C6. A transfer that is cancelled at a progress callback, that the transport
  ends with an error, whose body exceeds the size limit, or whose
  \<^verbatim>\<open>rename\<close> throws gives the empty path
  (\<open>failed_transfer_returns_empty_path\<close>). Staging that fails without an
  exception does not: the source tests no state of the stream, so when the
  stream stops after two of the four bytes \<open>abcd\<close>, the callback renames what
  was written and returns true, and \<^verbatim>\<open>download_file\<close> returns the destination,
  which then names a file of two bytes.
\<close>

theorem silent_write_failure_returns_destination:
  "result (example_transfer False) = HttpComplete ''abcd'' 200 \<and>
   fst (download_file (example_env (WriteFails 2))
     \<lparr>m_default_dest_folder = ''/data/cache'', m_user_dest_path = []\<rparr>
     \<lparr>url = ''https://host/files/app.exe'', start_after = True\<rparr>
     (example_transfer False) example_state) = ''/data/cache/app.exe'' \<and>
   files (snd (download_file (example_env (WriteFails 2))
     \<lparr>m_default_dest_folder = ''/data/cache'', m_user_dest_path = []\<rparr>
     \<lparr>url = ''https://host/files/app.exe'', start_after = True\<rparr>
     (example_transfer False) example_state)) ''/data/cache/app.exe'' = Some ''ab''"
proof -
  let ?e = "example_env (WriteFails 2)"
  let ?p = "\<lparr>m_default_dest_folder = ''/data/cache'', m_user_dest_path = []\<rparr>"
  let ?data = "\<lparr>url = ''https://host/files/app.exe'', start_after = True\<rparr>"
  have dest: "resolve_dest_path ?e ?p ?data = ''/data/cache/app.exe''"
    by (simp add: example_eval)
  then have ne: "resolve_dest_path ?e ?p ?data \<noteq> []"
    by simp
  have quiet: "\<not> (\<exists>tick \<in> set (ticks (example_transfer False)). snd tick)"
    by (simp add: example_transfer_def)
  have fin: "result (example_transfer False) = HttpComplete ''abcd'' 200"
    by (simp add: example_transfer_def)
  have small: "length ''abcd'' \<le> 70 * 1024 * 1024"
    by simp
  have flt: "fault ?e = WriteFails 2"
    by (simp add: example_env_def)
  from silent_write_failure [OF ne quiet fin small flt, of example_state]
  have "fst (download_file ?e ?p ?data (example_transfer False) example_state) =
      ''/data/cache/app.exe''"
    and "files (snd (download_file ?e ?p ?data (example_transfer False) example_state))
      ''/data/cache/app.exe'' = Some ''ab''"
    unfolding dest by simp_all
  with fin show ?thesis by blast
qed

text \<open>
  C7. The completion callback writes the body to the temporary file named by
  the destination, a dot, the process id and \<open>.download\<close>, and renames that
  file onto the destination: after a download that completes, the destination
  that \<^verbatim>\<open>download_file\<close> resolved holds the body and the temporary file is
  gone. The callback returns false exactly when \<^verbatim>\<open>rename\<close> throws, the
  stream throwing never, and then the download returns the empty path. A
  temporary file that was written stays when \<^verbatim>\<open>rename\<close> throws; there is
  none when the stream could not open it.
\<close>

theorem completion_stages_then_renames:
  "tmp_path_of e dest_path = dest_path @ ''.'' @ to_string (current_pid e) @ ''.download'' \<and>
   fst (download_complete_fn e dest_path body s) =
     (\<not> fst (fs_rename (fault e) (tmp_path_of e dest_path) dest_path
        (fstream_write (fault e) (tmp_path_of e dest_path) body (files s)))) \<and>
   (fault e = NoFault \<longrightarrow>
      download_complete_fn e dest_path body s =
        (True, s\<lparr>files := ((files s)(tmp_path_of e dest_path := None))(dest_path \<mapsto> body)\<rparr>)) \<and>
   (fault e = RenameThrows \<longrightarrow>
      download_complete_fn e dest_path body s =
        (False, s\<lparr>files := (files s)(tmp_path_of e dest_path \<mapsto> body)\<rparr>)) \<and>
   (resolve_dest_path e p data \<noteq> [] \<and> \<not> (\<exists>tick \<in> set (ticks t). snd tick) \<and>
    result t = HttpComplete body http_status \<and> length body \<le> 70 * 1024 * 1024 \<longrightarrow>
      (fault e = NoFault \<longrightarrow>
         fst (download_file e p data t st) = resolve_dest_path e p data \<and>
         files (snd (download_file e p data t st)) =
           ((files st)(tmp_path_of e (resolve_dest_path e p data) := None))
             (resolve_dest_path e p data \<mapsto> body)) \<and>
      (fst (fs_rename (fault e) (tmp_path_of e (resolve_dest_path e p data))
              (resolve_dest_path e p data)
              (fstream_write (fault e) (tmp_path_of e (resolve_dest_path e p data)) body
                 (files st))) \<longrightarrow>
         fst (download_file e p data t st) = []) \<and>
      (fault e = RenameThrows \<longrightarrow>
         fst (download_file e p data t st) = [] \<and>
         files (snd (download_file e p data t st)) =
           (files st)(tmp_path_of e (resolve_dest_path e p data) \<mapsto> body)) \<and>
      (fault e = OpenFails \<and> files st (tmp_path_of e (resolve_dest_path e p data)) = None \<longrightarrow>
         fst (download_file e p data t st) = [] \<and>
         files (snd (download_file e p data t st)) = files st))"
proof -
  let ?dest = "resolve_dest_path e p data"
  let ?out = "download_file e p data t st"
  have a: "tmp_path_of e dest_path = dest_path @ ''.'' @ to_string (current_pid e) @ ''.download''"
    by (simp add: tmp_path_of_def)
  have b: "fst (download_complete_fn e dest_path body s) =
     (\<not> fst (fs_rename (fault e) (tmp_path_of e dest_path) dest_path
        (fstream_write (fault e) (tmp_path_of e dest_path) body (files s))))"
    by (simp add: download_complete_fn_stage stage_def)
  have c: "fault e = NoFault \<longrightarrow>
      download_complete_fn e dest_path body s =
        (True, s\<lparr>files := ((files s)(tmp_path_of e dest_path := None))(dest_path \<mapsto> body)\<rparr>)"
    by (simp add: download_complete_fn_stage stage_cases)
  have d: "fault e = RenameThrows \<longrightarrow>
      download_complete_fn e dest_path body s =
        (False, s\<lparr>files := (files s)(tmp_path_of e dest_path \<mapsto> body)\<rparr>)"
    by (simp add: download_complete_fn_stage stage_cases)
  have f: "(fault e = NoFault \<longrightarrow>
         fst ?out = ?dest \<and>
         files (snd ?out) = ((files st)(tmp_path_of e ?dest := None))(?dest \<mapsto> body)) \<and>
      (fst (fs_rename (fault e) (tmp_path_of e ?dest) ?dest
              (fstream_write (fault e) (tmp_path_of e ?dest) body (files st))) \<longrightarrow>
         fst ?out = []) \<and>
      (fault e = RenameThrows \<longrightarrow>
         fst ?out = [] \<and> files (snd ?out) = (files st)(tmp_path_of e ?dest \<mapsto> body)) \<and>
      (fault e = OpenFails \<and> files st (tmp_path_of e ?dest) = None \<longrightarrow>
         fst ?out = [] \<and> files (snd ?out) = files st)"
    if h: "?dest \<noteq> [] \<and> \<not> (\<exists>tick \<in> set (ticks t). snd tick) \<and>
      result t = HttpComplete body http_status \<and> length body \<le> 70 * 1024 * 1024"
  proof -
    from h completed_download [of e p data t body http_status st]
    have path: "fst ?out = (if fst (stage e ?dest body (files st)) then [] else ?dest)"
      and fs: "files (snd ?out) = snd (stage e ?dest body (files st))"
      by simp_all
    have thrown: "fst (fs_rename (fault e) (tmp_path_of e ?dest) ?dest
              (fstream_write (fault e) (tmp_path_of e ?dest) body (files st))) =
        fst (stage e ?dest body (files st))"
      by (simp add: stage_def)
    show ?thesis
      unfolding path fs thrown
      by (auto simp: stage_cases)
  qed
  from a b c d f show ?thesis by blast
qed

theorem destination_resolution_witness:
  "resolve_dest_path (example_env NoFault)
     \<lparr>m_default_dest_folder = ''/data/cache'', m_user_dest_path = ''/tmp/x.exe''\<rparr>
     \<lparr>url = ''https://host/files/app.exe'', start_after = True\<rparr> = ''/tmp/x.exe'' \<and>
   resolve_dest_path (example_env NoFault)
     \<lparr>m_default_dest_folder = ''/data/cache'', m_user_dest_path = []\<rparr>
     \<lparr>url = ''https://host/files/app.exe'', start_after = True\<rparr> = ''/data/cache/app.exe'' \<and>
   fst (download_file (example_env NoFault)
     \<lparr>m_default_dest_folder = ''/data/cache'', m_user_dest_path = []\<rparr>
     \<lparr>url = ''https://host/files/app.exe'', start_after = True\<rparr>
     (example_transfer False) example_state) = ''/data/cache/app.exe'' \<and>
   files (snd (download_file (example_env NoFault)
     \<lparr>m_default_dest_folder = ''/data/cache'', m_user_dest_path = []\<rparr>
     \<lparr>url = ''https://host/files/app.exe'', start_after = True\<rparr>
     (example_transfer False) example_state)) ''/data/cache/app.exe'' = Some ''abcd'' \<and>
   requests (snd (download_file (example_env NoFault)
     \<lparr>m_default_dest_folder = ''/data/cache'', m_user_dest_path = []\<rparr>
     \<lparr>url = ''https://host/files/app.exe'', start_after = True\<rparr>
     (example_transfer False) example_state)) = [(''https://host/files/app.exe'', 73400320)] \<and>
   resolve_dest_path (example_env NoFault)
     \<lparr>m_default_dest_folder = [], m_user_dest_path = []\<rparr>
     \<lparr>url = ''https://host/files/'', start_after = True\<rparr> = [] \<and>
   fst (download_file (example_env NoFault)
     \<lparr>m_default_dest_folder = [], m_user_dest_path = []\<rparr>
     \<lparr>url = ''https://host/files/'', start_after = True\<rparr>
     (example_transfer False) example_state) = [] \<and>
   requests (snd (download_file (example_env NoFault)
     \<lparr>m_default_dest_folder = [], m_user_dest_path = []\<rparr>
     \<lparr>url = ''https://host/files/'', start_after = True\<rparr>
     (example_transfer False) example_state)) = []"
proof -
  let ?e = "example_env NoFault"
  let ?user = "\<lparr>m_default_dest_folder = ''/data/cache'', m_user_dest_path = ''/tmp/x.exe''\<rparr>"
  let ?default = "\<lparr>m_default_dest_folder = ''/data/cache'', m_user_dest_path = []\<rparr>"
  let ?none = "\<lparr>m_default_dest_folder = [], m_user_dest_path = []\<rparr>"
  let ?data = "\<lparr>url = ''https://host/files/app.exe'', start_after = True\<rparr>"
  let ?dir = "\<lparr>url = ''https://host/files/'', start_after = True\<rparr>"
  let ?t = "example_transfer False"
  note user = destination_resolution [of ?e ?user ?data ?t example_state "''abcd''" 200]
  note default = destination_resolution [of ?e ?default ?data ?t example_state "''abcd''" 200]
  note none = destination_resolution [of ?e ?none ?dir ?t example_state "''abcd''" 200]
  from user have a: "resolve_dest_path ?e ?user ?data = ''/tmp/x.exe''"
    by simp
  have name: "get_filename_from_url ''https://host/files/app.exe'' = ''app.exe''"
    by (simp add: example_eval)
  from default have "resolve_dest_path ?e ?default ?data =
      path_append ?e ''/data/cache'' (get_filename_from_url ''https://host/files/app.exe'')"
    by simp
  then have b: "resolve_dest_path ?e ?default ?data = ''/data/cache/app.exe''"
    unfolding name by (simp add: example_env_def)
  have hyp: "resolve_dest_path ?e ?default ?data \<noteq> [] \<and>
      \<not> (\<exists>tick \<in> set (ticks ?t). snd tick) \<and>
      result ?t = HttpComplete ''abcd'' 200 \<and> length ''abcd'' \<le> 70 * 1024 * 1024 \<and>
      fault ?e = NoFault"
    unfolding b by (simp add: example_transfer_def example_env_def)
  with default have "fst (download_file ?e ?default ?data ?t example_state) =
        resolve_dest_path ?e ?default ?data"
    and "files (snd (download_file ?e ?default ?data ?t example_state)) =
        ((files example_state)(tmp_path_of ?e (resolve_dest_path ?e ?default ?data) := None))
          (resolve_dest_path ?e ?default ?data \<mapsto> ''abcd'')"
    and "requests (snd (download_file ?e ?default ?data ?t example_state)) =
        requests example_state @ [(url ?data, 70 * 1024 * 1024)]"
    by blast+
  then have c: "fst (download_file ?e ?default ?data ?t example_state) = ''/data/cache/app.exe''"
    "files (snd (download_file ?e ?default ?data ?t example_state)) ''/data/cache/app.exe'' =
       Some ''abcd''"
    "requests (snd (download_file ?e ?default ?data ?t example_state)) =
       [(''https://host/files/app.exe'', 73400320)]"
    unfolding b by (simp_all add: example_state_def)
  have d: "resolve_dest_path ?e ?none ?dir = []"
    by (simp add: example_eval)
  with none have "fst (download_file ?e ?none ?dir ?t example_state) = []"
    and "requests (snd (download_file ?e ?none ?dir ?t example_state)) = requests example_state"
    by blast+
  then have f: "fst (download_file ?e ?none ?dir ?t example_state) = []"
    "requests (snd (download_file ?e ?none ?dir ?t example_state)) = []"
    by (simp_all add: example_state_def)
  from a b c d f show ?thesis by blast
qed

theorem completion_stages_then_renames_witness:
  "tmp_path_of (example_env NoFault) ''/data/cache/app.exe'' =
     ''/data/cache/app.exe.4242.download'' \<and>
   fst (download_file (example_env NoFault)
     \<lparr>m_default_dest_folder = ''/data/cache'', m_user_dest_path = []\<rparr>
     \<lparr>url = ''https://host/files/app.exe'', start_after = True\<rparr>
     (example_transfer False) example_state) = ''/data/cache/app.exe'' \<and>
   files (snd (download_file (example_env NoFault)
     \<lparr>m_default_dest_folder = ''/data/cache'', m_user_dest_path = []\<rparr>
     \<lparr>url = ''https://host/files/app.exe'', start_after = True\<rparr>
     (example_transfer False) example_state)) =
       [''/data/cache/app.exe'' \<mapsto> ''abcd''] \<and>
   fst (download_file (example_env RenameThrows)
     \<lparr>m_default_dest_folder = ''/data/cache'', m_user_dest_path = []\<rparr>
     \<lparr>url = ''https://host/files/app.exe'', start_after = True\<rparr>
     (example_transfer False) example_state) = [] \<and>
   files (snd (download_file (example_env RenameThrows)
     \<lparr>m_default_dest_folder = ''/data/cache'', m_user_dest_path = []\<rparr>
     \<lparr>url = ''https://host/files/app.exe'', start_after = True\<rparr>
     (example_transfer False) example_state)) =
       [''/data/cache/app.exe.4242.download'' \<mapsto> ''abcd''] \<and>
   fst (download_file (example_env OpenFails)
     \<lparr>m_default_dest_folder = ''/data/cache'', m_user_dest_path = []\<rparr>
     \<lparr>url = ''https://host/files/app.exe'', start_after = True\<rparr>
     (example_transfer False) example_state) = [] \<and>
   files (snd (download_file (example_env OpenFails)
     \<lparr>m_default_dest_folder = ''/data/cache'', m_user_dest_path = []\<rparr>
     \<lparr>url = ''https://host/files/app.exe'', start_after = True\<rparr>
     (example_transfer False) example_state)) = Map.empty"
proof -
  let ?p = "\<lparr>m_default_dest_folder = ''/data/cache'', m_user_dest_path = []\<rparr>"
  let ?data = "\<lparr>url = ''https://host/files/app.exe'', start_after = True\<rparr>"
  let ?t = "example_transfer False"
  let ?dest = "''/data/cache/app.exe''"
  let ?tmp = "''/data/cache/app.exe.4242.download''"
  have pid: "to_string 4242 = ''4242''"
    by (simp add: to_string.simps)
  have dest: "resolve_dest_path (example_env flt) ?p ?data = ?dest" for flt
    by (simp add: example_eval)
  have tmp: "tmp_path_of (example_env flt) ?dest = ?tmp" for flt
    using completion_stages_then_renames
      [of "example_env flt" ?dest "''abcd''" example_state ?p ?data ?t 200 example_state]
    by (simp add: example_env_def pid)
  have hyp: "resolve_dest_path (example_env flt) ?p ?data \<noteq> [] \<and>
      \<not> (\<exists>tick \<in> set (ticks ?t). snd tick) \<and>
      result ?t = HttpComplete ''abcd'' 200 \<and> length ''abcd'' \<le> 70 * 1024 * 1024" for flt
    unfolding dest by (simp add: example_transfer_def)
  have flt: "fault (example_env flt) = flt" for flt
    by (simp add: example_env_def)
  have empty: "files example_state = Map.empty"
    by (simp add: example_state_def)
  note good = completion_stages_then_renames
    [of "example_env NoFault" ?dest "''abcd''" example_state ?p ?data ?t 200 example_state]
  note bad = completion_stages_then_renames
    [of "example_env RenameThrows" ?dest "''abcd''" example_state ?p ?data ?t 200 example_state]
  note shut = completion_stages_then_renames
    [of "example_env OpenFails" ?dest "''abcd''" example_state ?p ?data ?t 200 example_state]
  from good hyp [of NoFault] flt [of NoFault]
  have "fst (download_file (example_env NoFault) ?p ?data ?t example_state) =
      resolve_dest_path (example_env NoFault) ?p ?data"
    and "files (snd (download_file (example_env NoFault) ?p ?data ?t example_state)) =
      ((files example_state)
         (tmp_path_of (example_env NoFault) (resolve_dest_path (example_env NoFault) ?p ?data) := None))
        (resolve_dest_path (example_env NoFault) ?p ?data \<mapsto> ''abcd'')"
    by blast+
  then have a: "fst (download_file (example_env NoFault) ?p ?data ?t example_state) = ?dest"
    "files (snd (download_file (example_env NoFault) ?p ?data ?t example_state)) =
      [?dest \<mapsto> ''abcd'']"
    unfolding dest tmp empty by simp_all
  from bad hyp [of RenameThrows] flt [of RenameThrows]
  have "fst (download_file (example_env RenameThrows) ?p ?data ?t example_state) = []"
    and "files (snd (download_file (example_env RenameThrows) ?p ?data ?t example_state)) =
      (files example_state)
        (tmp_path_of (example_env RenameThrows)
           (resolve_dest_path (example_env RenameThrows) ?p ?data) \<mapsto> ''abcd'')"
    by blast+
  then have b: "fst (download_file (example_env RenameThrows) ?p ?data ?t example_state) = []"
    "files (snd (download_file (example_env RenameThrows) ?p ?data ?t example_state)) =
      [?tmp \<mapsto> ''abcd'']"
    unfolding dest tmp empty by simp_all
  have "files example_state
      (tmp_path_of (example_env OpenFails) (resolve_dest_path (example_env OpenFails) ?p ?data)) = None"
    unfolding empty by simp
  with shut hyp [of OpenFails] flt [of OpenFails]
  have "fst (download_file (example_env OpenFails) ?p ?data ?t example_state) = []"
    and "files (snd (download_file (example_env OpenFails) ?p ?data ?t example_state)) =
      files example_state"
    by blast+
  then have c: "fst (download_file (example_env OpenFails) ?p ?data ?t example_state) = []"
    "files (snd (download_file (example_env OpenFails) ?p ?data ?t example_state)) = Map.empty"
    unfolding empty by simp_all
  from tmp [of NoFault] a b c show ?thesis by blast
qed

text \<open>
  C8. Every request that \<^verbatim>\<open>download_file\<close> makes carries the size limit
  \<open>70 * 1024 * 1024\<close>, that is 73400320 bytes: it makes one request with that
  limit, or none when the destination is empty. \<^verbatim>\<open>version_check\<close> makes one
  request, with the size limit 256.
\<close>

theorem transport_size_limits:
  "requests (snd (download_file e p data t st)) =
     requests st @
     (if resolve_dest_path e p data = [] then [] else [(url data, 70 * 1024 * 1024)]) \<and>
   (70 * 1024 * 1024 :: nat) = 73400320 \<and>
   requests (version_check parse lt u t' st') = requests st' @ [(u, 256)]"
  using download_file_requests [of e p data t st] version_check_requests [of parse lt u t' st']
  by simp

theorem transport_size_limits_witness:
  "requests (snd (download_file (example_env NoFault)
     \<lparr>m_default_dest_folder = ''/data/cache'', m_user_dest_path = []\<rparr>
     \<lparr>url = ''https://host/files/app.exe'', start_after = True\<rparr>
     (example_transfer False) example_state)) = [(''https://host/files/app.exe'', 73400320)] \<and>
   requests (version_check semver_parse semver_less ''https://host/version''
     (example_transfer False) example_state) = [(''https://host/version'', 256)]"
proof -
  let ?e = "example_env NoFault"
  let ?p = "\<lparr>m_default_dest_folder = ''/data/cache'', m_user_dest_path = []\<rparr>"
  let ?data = "\<lparr>url = ''https://host/files/app.exe'', start_after = True\<rparr>"
  have dest: "resolve_dest_path ?e ?p ?data = ''/data/cache/app.exe''"
    by (simp add: example_eval)
  have none: "requests example_state = []"
    by (simp add: example_state_def)
  from transport_size_limits [of ?e ?p ?data "example_transfer False" example_state
      semver_parse semver_less "''https://host/version''" "example_transfer False" example_state]
  show ?thesis
    unfolding dest none by simp
qed

section \<open>One background task at a time\<close>

lemma start_after_join_actions:
  "actions (start_thread job (store_cancel False (join_if_joinable u))) =
     actions u @
     (case m_thread u of None \<Rightarrow> [] | Some t \<Rightarrow> [StoreCancel True, Join t]) @
     [StoreCancel False, Spawn (spawned u) job]"
  by (simp add: start_thread_def store_cancel_def join_if_joinable_def join_thread_def split: option.splits)

lemma start_after_join_running:
  assumes "\<forall>t \<in> set (running u). m_thread u = Some t"
  shows "running (start_thread job (store_cancel False (join_if_joinable u))) = [spawned u] \<and>
     m_thread (start_thread job (store_cancel False (join_if_joinable u))) = Some (spawned u)"
proof (cases "m_thread u")
  case None
  with assms have "running u = []" by (cases "running u") auto
  with None show ?thesis
    by (simp add: start_thread_def store_cancel_def join_if_joinable_def join_thread_def)
next
  case (Some t)
  with assms have "removeAll t (running u) = []"
    by (auto simp: removeAll_filter_not_eq filter_empty_conv)
  with Some show ?thesis
    by (simp add: start_thread_def store_cancel_def join_if_joinable_def join_thread_def)
qed

lemma start_after_join_track:
  assumes "foldl track (Some None) (actions u) = Some (m_thread u)"
  shows "foldl track (Some None) (actions (start_thread job (store_cancel False (join_if_joinable u)))) =
     Some (m_thread (start_thread job (store_cancel False (join_if_joinable u))))"
  using assms
  by (cases "m_thread u")
     (simp_all add: start_after_join_actions start_thread_def store_cancel_def join_if_joinable_def join_thread_def)

lemma occur_invariant:
  assumes "\<forall>t \<in> set (running u). m_thread u = Some t"
    and "length (running u) \<le> 1"
    and "foldl track (Some None) (actions u) = Some (m_thread u)"
  shows "(\<forall>t \<in> set (running (occur u x)). m_thread (occur u x) = Some t) \<and>
     length (running (occur u x)) \<le> 1 \<and>
     foldl track (Some None) (actions (occur u x)) = Some (m_thread (occur u x))"
proof (cases x)
  case (CallSyncDownload d)
  with start_after_join_running [OF assms(1), of "DownloadTask d"]
    start_after_join_track [OF assms(3), of "DownloadTask d"]
  show ?thesis by (simp add: sync_download_def)
next
  case (CallSyncVersion v)
  with start_after_join_running [OF assms(1), of "VersionTask v"]
    start_after_join_track [OF assms(3), of "VersionTask v"]
  show ?thesis by (simp add: sync_version_def)
next
  case CallCancel
  with assms show ?thesis by (simp add: cancel_def store_cancel_def)
next
  case (ThreadEnds t)
  have "length (removeAll t (running u)) \<le> length (running u)"
    by (simp add: removeAll_filter_not_eq)
  with assms(2) have "length (removeAll t (running u)) \<le> 1"
    by linarith
  with ThreadEnds assms(1,3) show ?thesis by auto
qed

lemma history_invariant:
  "(\<forall>t \<in> set (running (history os)). m_thread (history os) = Some t) \<and>
   length (running (history os)) \<le> 1 \<and>
   foldl track (Some None) (actions (history os)) = Some (m_thread (history os))"
proof (induction os rule: rev_induct)
  case Nil
  then show ?case by (simp add: history_def new_updater_def)
next
  case (snoc x os)
  have "history (os @ [x]) = occur (history os) x"
    by (simp add: history_def)
  with occur_invariant [of "history os" x] snoc.IH show ?case by simp
qed

lemma sync_cancel_flag:
  "m_cancel (start_thread job (store_cancel False (join_if_joinable u))) = False"
  by (simp add: start_thread_def store_cancel_def)

lemma history_flag: "m_cancel (history os) = flag_after (actions (history os))"
proof (induction os rule: rev_induct)
  case Nil
  then show ?case by (simp add: history_def new_updater_def flag_after_def)
next
  case (snoc x os)
  have step: "history (os @ [x]) = occur (history os) x"
    by (simp add: history_def)
  show ?case
  proof (cases x)
    case (CallSyncDownload d)
    then show ?thesis
      unfolding step
      by (simp add: sync_download_def sync_cancel_flag start_after_join_actions flag_after_def)
  next
    case (CallSyncVersion v)
    then show ?thesis
      unfolding step
      by (simp add: sync_version_def sync_cancel_flag start_after_join_actions flag_after_def)
  next
    case CallCancel
    then show ?thesis
      unfolding step by (simp add: cancel_def store_cancel_def flag_after_def)
  next
    case (ThreadEnds t)
    with snoc.IH show ?thesis
      unfolding step by simp
  qed
qed

text \<open>
  C9. A call of \<^verbatim>\<open>sync_download\<close> or \<^verbatim>\<open>sync_version\<close> acts in this order: when
  the handle is joinable it sets \<open>m_cancel\<close> and joins the thread, so that the
  flag is set while it joins and the thread runs no more after; then it clears
  \<open>m_cancel\<close>, so that the flag is clear before the new thread starts; then it
  spawns the new thread, which leaves the flag clear. Each store writes the
  flag, and joining and spawning leave it alone, so that after any sequence of
  calls and thread ends the flag holds the last value stored. After any such
  sequence at most one thread is running, the running thread is the one in
  \<open>m_thread\<close>, and in the sequence of all actions a thread is spawned only
  after the one spawned before it has been joined.
\<close>

theorem one_background_task:
  "actions (sync_download d u) =
     actions u @
     (case m_thread u of None \<Rightarrow> [] | Some t \<Rightarrow> [StoreCancel True, Join t]) @
     [StoreCancel False, Spawn (spawned u) (DownloadTask d)] \<and>
   actions (sync_version v u) =
     actions u @
     (case m_thread u of None \<Rightarrow> [] | Some t \<Rightarrow> [StoreCancel True, Join t]) @
     [StoreCancel False, Spawn (spawned u) (VersionTask v)] \<and>
   length (running (history os)) \<le> 1 \<and>
   (\<forall>t \<in> set (running (history os)). m_thread (history os) = Some t) \<and>
   serial (actions (history os)) \<and>
   m_cancel (store_cancel b u) = b \<and>
   m_cancel (join_thread t u) = m_cancel u \<and>
   m_cancel (start_thread job u) = m_cancel u \<and>
   (m_thread u = None \<longrightarrow> join_if_joinable u = u) \<and>
   (m_thread u = Some t \<longrightarrow>
      join_if_joinable u = join_thread t (store_cancel True u) \<and>
      m_cancel (store_cancel True u) = True \<and>
      m_cancel (join_if_joinable u) = True \<and>
      m_thread (join_if_joinable u) = None \<and>
      t \<notin> set (running (join_if_joinable u))) \<and>
   sync_download d u = start_thread (DownloadTask d) (store_cancel False (join_if_joinable u)) \<and>
   sync_version v u = start_thread (VersionTask v) (store_cancel False (join_if_joinable u)) \<and>
   m_cancel (store_cancel False (join_if_joinable u)) = False \<and>
   m_cancel (sync_download d u) = False \<and>
   m_cancel (sync_version v u) = False \<and>
   m_thread (sync_download d u) = Some (spawned u) \<and>
   m_thread (sync_version v u) = Some (spawned u) \<and>
   spawned u \<in> set (running (sync_download d u)) \<and>
   spawned u \<in> set (running (sync_version v u)) \<and>
   m_cancel (cancel u) = True \<and>
   m_cancel (history os) = flag_after (actions (history os))"
proof -
  have acts: "actions (sync_download d u) =
     actions u @
     (case m_thread u of None \<Rightarrow> [] | Some t \<Rightarrow> [StoreCancel True, Join t]) @
     [StoreCancel False, Spawn (spawned u) (DownloadTask d)]"
    "actions (sync_version v u) =
     actions u @
     (case m_thread u of None \<Rightarrow> [] | Some t \<Rightarrow> [StoreCancel True, Join t]) @
     [StoreCancel False, Spawn (spawned u) (VersionTask v)]"
    by (simp_all add: sync_download_def sync_version_def start_after_join_actions)
  have inv: "length (running (history os)) \<le> 1"
    "\<forall>t \<in> set (running (history os)). m_thread (history os) = Some t"
    "serial (actions (history os))"
    using history_invariant [of os] by (simp_all add: serial_def)
  have parts: "m_cancel (store_cancel b u) = b"
    "m_cancel (join_thread t u) = m_cancel u"
    "m_cancel (start_thread job u) = m_cancel u"
    by (simp_all add: store_cancel_def join_thread_def start_thread_def)
  have idle: "m_thread u = None \<longrightarrow> join_if_joinable u = u"
    by (simp add: join_if_joinable_def)
  have joined: "m_thread u = Some t \<longrightarrow>
      join_if_joinable u = join_thread t (store_cancel True u) \<and>
      m_cancel (store_cancel True u) = True \<and>
      m_cancel (join_if_joinable u) = True \<and>
      m_thread (join_if_joinable u) = None \<and>
      t \<notin> set (running (join_if_joinable u))"
    by (simp add: join_if_joinable_def join_thread_def store_cancel_def)
  have calls: "sync_download d u = start_thread (DownloadTask d) (store_cancel False (join_if_joinable u))"
    "sync_version v u = start_thread (VersionTask v) (store_cancel False (join_if_joinable u))"
    by (simp_all add: sync_download_def sync_version_def)
  have clear: "m_cancel (store_cancel False (join_if_joinable u)) = False"
    "m_cancel (sync_download d u) = False"
    "m_cancel (sync_version v u) = False"
    by (simp_all add: sync_download_def sync_version_def start_thread_def store_cancel_def)
  have started: "m_thread (sync_download d u) = Some (spawned u)"
    "m_thread (sync_version v u) = Some (spawned u)"
    "spawned u \<in> set (running (sync_download d u))"
    "spawned u \<in> set (running (sync_version v u))"
    by (cases "m_thread u";
        simp add: sync_download_def sync_version_def start_thread_def store_cancel_def
          join_if_joinable_def join_thread_def)+
  have stop: "m_cancel (cancel u) = True"
    by (simp add: cancel_def store_cancel_def)
  have flag: "m_cancel (history os) = flag_after (actions (history os))"
    by (rule history_flag)
  from acts inv parts idle joined calls clear started stop flag show ?thesis
    by blast
qed

theorem one_background_task_witness:
  "actions (history
     [CallSyncVersion ''https://host/version'',
      CallSyncDownload \<lparr>url = ''https://host/app.exe'', start_after = True\<rparr>,
      CallCancel, ThreadEnds 1,
      CallSyncVersion ''https://host/version'']) =
     [StoreCancel False, Spawn 0 (VersionTask ''https://host/version''),
      StoreCancel True, Join 0,
      StoreCancel False, Spawn 1 (DownloadTask \<lparr>url = ''https://host/app.exe'', start_after = True\<rparr>),
      StoreCancel True,
      StoreCancel True, Join 1,
      StoreCancel False, Spawn 2 (VersionTask ''https://host/version'')] \<and>
   running (history
     [CallSyncVersion ''https://host/version'',
      CallSyncDownload \<lparr>url = ''https://host/app.exe'', start_after = True\<rparr>,
      CallCancel, ThreadEnds 1,
      CallSyncVersion ''https://host/version'']) = [2] \<and>
   m_thread (history
     [CallSyncVersion ''https://host/version'',
      CallSyncDownload \<lparr>url = ''https://host/app.exe'', start_after = True\<rparr>,
      CallCancel, ThreadEnds 1,
      CallSyncVersion ''https://host/version'']) = Some 2 \<and>
   m_cancel (history
     [CallSyncVersion ''https://host/version'',
      CallSyncDownload \<lparr>url = ''https://host/app.exe'', start_after = True\<rparr>,
      CallCancel]) = True \<and>
   m_thread (history [CallSyncVersion ''https://host/version'']) = Some 0 \<and>
   m_cancel (join_if_joinable (history [CallSyncVersion ''https://host/version''])) = True \<and>
   m_cancel (sync_download \<lparr>url = ''https://host/app.exe'', start_after = True\<rparr>
     (history [CallSyncVersion ''https://host/version''])) = False \<and>
   m_thread new_updater = None \<and>
   join_if_joinable new_updater = new_updater"
proof -
  let ?d = "\<lparr>url = ''https://host/app.exe'', start_after = True\<rparr>"
  let ?v = "''https://host/version''"
  let ?os = "[CallSyncVersion ?v, CallSyncDownload ?d, CallCancel, ThreadEnds 1, CallSyncVersion ?v]"
  let ?cancelled = "[CallSyncVersion ?v, CallSyncDownload ?d, CallCancel]"
  let ?one = "history [CallSyncVersion ?v]"
  have run: "running (history ?os) = [2]"
    by (simp add: history_def new_updater_def sync_download_def sync_version_def cancel_def
        start_thread_def store_cancel_def join_if_joinable_def join_thread_def)
  have acts: "actions (history ?os) =
     [StoreCancel False, Spawn 0 (VersionTask ?v),
      StoreCancel True, Join 0,
      StoreCancel False, Spawn 1 (DownloadTask ?d),
      StoreCancel True,
      StoreCancel True, Join 1,
      StoreCancel False, Spawn 2 (VersionTask ?v)]"
    by (simp add: history_def new_updater_def sync_download_def sync_version_def cancel_def
        start_thread_def store_cancel_def join_if_joinable_def join_thread_def)
  from one_background_task [of ?d new_updater ?v ?os True 0 "VersionTask ?v"]
  have "\<forall>t \<in> set (running (history ?os)). m_thread (history ?os) = Some t"
    by blast
  with run have thread: "m_thread (history ?os) = Some 2" by simp
  have "actions (history ?cancelled) =
     [StoreCancel False, Spawn 0 (VersionTask ?v),
      StoreCancel True, Join 0,
      StoreCancel False, Spawn 1 (DownloadTask ?d),
      StoreCancel True]"
    by (simp add: history_def new_updater_def sync_download_def sync_version_def cancel_def
        start_thread_def store_cancel_def join_if_joinable_def join_thread_def)
  moreover from one_background_task [of ?d new_updater ?v ?cancelled True 0 "VersionTask ?v"]
  have "m_cancel (history ?cancelled) = flag_after (actions (history ?cancelled))"
    by blast
  ultimately have flag: "m_cancel (history ?cancelled) = True"
    by (simp add: flag_after_def)
  have joinable: "m_thread ?one = Some 0"
    by (simp add: history_def new_updater_def sync_version_def
        start_thread_def store_cancel_def join_if_joinable_def)
  with one_background_task [of ?d ?one ?v "[]" True 0 "VersionTask ?v"]
  have set_then_clear: "m_cancel (join_if_joinable ?one) = True"
    "m_cancel (sync_download ?d ?one) = False"
    by blast+
  have idle: "m_thread new_updater = None"
    by (simp add: new_updater_def)
  with one_background_task [of ?d new_updater ?v "[]" True 0 "VersionTask ?v"]
  have nothing_to_join: "join_if_joinable new_updater = new_updater"
    by blast
  from acts run thread flag joinable set_then_clear idle nothing_to_join show ?thesis by blast
qed

end
